theory Spec2Isabelle
  imports Main "HOL-Library.Sublist" "HOL-Library.Word"
begin

section \<open>JavaScript numbers\<close>

text \<open>
  JavaScript numbers are IEEE 754 binary64 values: every arithmetic result is the exact
  result rounded to 53 significant bits, ties to even. A finite value is kept here as a
  pair \<open>(m, e)\<close> that stands for \<open>m * 2^e\<close>; the pair need not be in lowest terms.
\<close>

type_synonym double = "int \<times> int"

text \<open>Number of binary digits of a non-negative integer.\<close>

function bits :: "int \<Rightarrow> int" where
  "bits n = (if n \<le> 0 then 0 else 1 + bits (n div 2))"
  by pat_completeness auto

termination
  by (relation "measure nat") auto

declare bits.simps [simp del]

text \<open>The quotient \<open>num / den\<close> rounded to the nearest integer, ties to even.\<close>

definition roundHalfEven :: "int \<Rightarrow> int \<Rightarrow> int" where
  "roundHalfEven num den =
     (let q = num div den; r = num mod den in
      if 2 * r < den then q
      else if den < 2 * r then q + 1
      else if even q then q else q + 1)"

text \<open>A number that is not \<open>NaN\<close>: finite, or one of the two infinities.\<close>

datatype number = Finite double | Infinity | NegInfinity

text \<open>
  The pair in lowest terms (an odd significand, or \<open>(0, 0)\<close> for zero), so that two
  results are equal as pairs exactly when they are the same number.
\<close>

function normalize :: "int \<Rightarrow> int \<Rightarrow> double" where
  "normalize m e =
     (if m = 0 then (0, 0) else if even m then normalize (m div 2) (e + 1) else (m, e))"
  by pat_completeness auto

termination
  by (relation "measure (\<lambda>(m, e). nat \<bar>m\<bar>)") auto

declare normalize.simps [simp del]

text \<open>
  The binary64 value nearest to \<open>m * 2^e\<close>. The spacing of the values around it is
  \<open>2^q\<close>, where \<open>q\<close> leaves 53 binary digits to the significand and is never below
  \<open>-1074\<close> (the subnormal range); the significand is rounded to that spacing, ties to
  even, and a result of \<open>2^1024\<close> or more is an infinity.
\<close>

definition roundDouble :: "int \<Rightarrow> int \<Rightarrow> number" where
  "roundDouble m e =
     (if m = 0 then Finite (0, 0)
      else
        let a = \<bar>m\<bar>;
            q = max (e + bits a - 53) (- 1074);
            r = (if q \<le> e then a * 2 ^ nat (e - q) else roundHalfEven a (2 ^ nat (q - e)))
        in if 1024 < bits r + q then (if 0 < m then Infinity else NegInfinity)
           else Finite (normalize (sgn m * r) q))"

text \<open>An integer literal as a number.\<close>

definition ofInt :: "int \<Rightarrow> number" where
  "ofInt n = roundDouble n 0"

text \<open>
  \<open>d * k\<close> and \<open>x + k\<close> for an integer \<open>k\<close> that is a number exactly: the exact product
  or sum, rounded.
\<close>

definition js_times :: "double \<Rightarrow> int \<Rightarrow> number" where
  "js_times d k = roundDouble (fst d * k) (snd d)"

fun js_plus :: "number \<Rightarrow> int \<Rightarrow> number" where
  "js_plus (Finite (m, e)) k =
     (if 0 \<le> e then roundDouble (m * 2 ^ nat e + k) 0
      else roundDouble (m + k * 2 ^ nat (- e)) e)"
| "js_plus Infinity k = Infinity"
| "js_plus NegInfinity k = NegInfinity"

section \<open>Retry/backoff controller: \<open>with429Retry\<close> in resources/node-tooltip.js\<close>

text \<open>
  A retry-after hint as the controller reads it from a rejected call. The four shapes are
  the ones \<open>??\<close> and \<open>Number(...)\<close> tell apart: \<open>undefined\<close> (header or field absent),
  \<open>null\<close>, a value that \<open>Number\<close> turns into a finite number (a number or a numeric
  string; whole seconds or not), and a value that \<open>Number\<close> turns into \<open>NaN\<close> or an
  infinity (an HTTP date, say).
\<close>

datatype hint = Undefined | Null | Seconds double | NonNumeric

record response =
  status :: int
  header_retry_after :: hint
  data_retryAfter :: hint
  data_retry_after :: hint

record error =
  response :: "response option"
  message :: string

datatype 'a outcome = Resolved 'a | Rejected error

datatype syncStatus = Idle | Syncing | Waiting

record 'a run =
  result :: "error + 'a"
  invocations :: nat
  waited :: "number list"
  statusLog :: "syncStatus list"

text \<open>\<open>a ?? b\<close>: the right operand only when the left one is \<open>undefined\<close> or \<open>null\<close>.\<close>

definition nullish :: "hint \<Rightarrow> hint \<Rightarrow> hint" where
  "nullish a b = (if a = Undefined \<or> a = Null then b else a)"

text \<open>
  \<open>Number(v)\<close> followed by \<open>Number.isFinite\<close>: \<open>None\<close> stands for a result that is not
  finite. \<open>Number(undefined)\<close> is \<open>NaN\<close> and \<open>Number(null)\<close> is \<open>0\<close>.
\<close>

fun finiteNumber :: "hint \<Rightarrow> double option" where
  "finiteNumber Undefined = None"
| "finiteNumber Null = Some (0, 0)"
| "finiteNumber (Seconds s) = Some s"
| "finiteNumber NonNumeric = None"

text \<open>\<open>error?.response?.status === 429\<close>\<close>

definition is429 :: "error \<Rightarrow> bool" where
  "is429 e = (case response e of None \<Rightarrow> False | Some r \<Rightarrow> status r = 429)"

text \<open>
  \<open>retryAfterSeconds\<close> and \<open>waitMs\<close> of the catch block, the product and the sum in
  number arithmetic. An error without a response never reaches these lines (it is
  rethrown), so that case is given the value of an absent hint. \<open>waitMs\<close> is the delay
  handed to \<open>setTimeout\<close>.
\<close>

definition retryAfterSeconds :: "error \<Rightarrow> double option" where
  "retryAfterSeconds e =
     (case response e of
        None \<Rightarrow> None
      | Some r \<Rightarrow>
          finiteNumber
            (nullish (header_retry_after r) (nullish (data_retryAfter r) (data_retry_after r))))"

definition waitMs :: "error \<Rightarrow> number" where
  "waitMs e =
     js_plus (case retryAfterSeconds e of Some s \<Rightarrow> js_times s 1000 | None \<Rightarrow> ofInt 1000) 1000"

definition maxRetryError :: error where
  "maxRetryError =
     \<lparr>response = None, message = ''Maximum retry attempts reached due to rate limiting''\<rparr>"

text \<open>
  The \<open>while (attempt < 10)\<close> loop. \<open>requestFn k\<close> is the outcome of the \<open>k\<close>-th
  invocation of the wrapped call (counted from 0); \<open>calls\<close> counts the invocations made
  so far, \<open>ws\<close> the waits slept and \<open>st\<close> the sync statuses written for the node.
\<close>

function with429Retry_loop ::
  "(nat \<Rightarrow> 'a outcome) \<Rightarrow> nat \<Rightarrow> nat \<Rightarrow> number list \<Rightarrow> syncStatus list \<Rightarrow> 'a run"
where
  "with429Retry_loop requestFn attempt calls ws st =
     (if attempt < 10 then
        (case requestFn calls of
           Resolved v \<Rightarrow>
             \<lparr>result = Inr v, invocations = Suc calls, waited = ws, statusLog = st\<rparr>
         | Rejected e \<Rightarrow>
             if is429 e then
               with429Retry_loop requestFn (Suc attempt) (Suc calls)
                 (ws @ [waitMs e]) (st @ [Waiting, Syncing])
             else \<lparr>result = Inl e, invocations = Suc calls, waited = ws, statusLog = st\<rparr>)
      else \<lparr>result = Inl maxRetryError, invocations = calls, waited = ws, statusLog = st\<rparr>)"
  by pat_completeness auto

termination
  by (relation "measure (\<lambda>(requestFn, attempt, calls, ws, st). 10 - attempt)") auto

definition with429Retry :: "(nat \<Rightarrow> 'a outcome) \<Rightarrow> 'a run" where
  "with429Retry requestFn = with429Retry_loop requestFn 0 0 [] []"

text \<open>Whether an outcome is a rejection with status 429, and the error of a rejection.\<close>

definition rateLimited :: "'a outcome \<Rightarrow> bool" where
  "rateLimited out = (case out of Resolved v \<Rightarrow> False | Rejected e \<Rightarrow> is429 e)"

definition rejection :: "'a outcome \<Rightarrow> error" where
  "rejection out = (case out of Resolved v \<Rightarrow> maxRetryError | Rejected e \<Rightarrow> e)"


declare with429Retry_loop.simps [simp del]

text \<open>A rejection with status 429 whose \<open>retry-after\<close> header is \<open>h\<close> and whose body holds no hint, and a rejection with status 500.\<close>

definition rateLimitError :: "hint \<Rightarrow> error" where
  "rateLimitError h =
     \<lparr>response = Some \<lparr>status = 429, header_retry_after = h,
                        data_retryAfter = Undefined, data_retry_after = Undefined\<rparr>,
      message = ''Request failed with status code 429''\<rparr>"

definition serverError :: error where
  "serverError =
     \<lparr>response = Some \<lparr>status = 500, header_retry_after = Undefined,
                        data_retryAfter = Undefined, data_retry_after = Undefined\<rparr>,
      message = ''Request failed with status code 500''\<rparr>"

section \<open>Connector configuration validation: \<open>validateConfig\<close>\<close>

datatype provider = OpenAI | AzureOpenAI | Anthropic | Google

text \<open>The \<open>required\<close> array of each connector's \<open>validateConfig\<close>.\<close>

fun required :: "provider \<Rightarrow> string list" where
  "required OpenAI = [''apiKey'']"
| "required AzureOpenAI = [''endpoint'', ''apiKey'', ''deploymentName'']"
| "required Anthropic = [''apiKey'']"
| "required Google = [''apiKey'']"

text \<open>
  A configuration object: \<open>config field\<close> is \<open>None\<close> where \<open>config[field]\<close> is
  \<open>undefined\<close>. The required fields hold strings, and a string is truthy when it is not
  empty.
\<close>

type_synonym config = "string \<Rightarrow> string option"

definition truthy :: "string option \<Rightarrow> bool" where
  "truthy v = (case v of None \<Rightarrow> False | Some s \<Rightarrow> s \<noteq> [])"

text \<open>\<open>Array.prototype.join\<close>\<close>

fun join :: "string \<Rightarrow> string list \<Rightarrow> string" where
  "join sep [] = []"
| "join sep [x] = x"
| "join sep (x # y # ys) = x @ sep @ join sep (y # ys)"

record validation =
  valid :: bool
  errors :: "string list"

definition validateConfig :: "provider \<Rightarrow> config \<Rightarrow> validation" where
  "validateConfig p config =
     (let missing = filter (\<lambda>field. \<not> truthy (config field)) (required p) in
      if length missing > 0 then
        \<lparr>valid = False, errors = [''Missing required fields: '' @ join '', '' missing]\<rparr>
      else \<lparr>valid = True, errors = []\<rparr>)"

text \<open>An Azure configuration with every required field, and one with an empty key and no deployment name.\<close>

definition azureConfig :: config where
  "azureConfig = [''endpoint'' \<mapsto> ''https://example.com'', ''apiKey'' \<mapsto> ''key'',
                  ''deploymentName'' \<mapsto> ''deploy'']"

definition azurePartial :: config where
  "azurePartial = [''endpoint'' \<mapsto> ''https://example.com'', ''apiKey'' \<mapsto> '''']"

section \<open>Package description lookup: \<open>packageInfo\<close> of the plugin entry point\<close>

text \<open>
  What an HTTP GET yields: it throws (network failure, timeout, error status) or it
  resolves with the response body. A registry body that is \<open>null\<close> or \<open>undefined\<close>
  makes the first property read throw inside the same \<open>try\<close>, and so counts as a
  failure.
\<close>

datatype 'a fetched = Thrown | Body 'a

text \<open>A \<open>package.json\<close> document, of which only \<open>description\<close> is read.\<close>

record packageJson =
  pj_description :: "string option"

text \<open>
  The registry document of a package: \<open>data['dist-tags'].latest\<close>, \<open>data.versions\<close>
  (a map from version to that version's package.json) and \<open>data.description\<close>, each
  \<open>None\<close> when absent.
\<close>

record registryDoc =
  latest :: "string option"
  versions :: "(string \<Rightarrow> packageJson option) option"
  doc_description :: "string option"

datatype request = Registry string | Unpkg string

record lookup =
  returned :: string
  cache :: "string \<Rightarrow> string option"
  requests :: "request list"

text \<open>\<open>a || ''\<close> on an optional string: the string when it is truthy, otherwise empty.\<close>

definition orEmpty :: "string option \<Rightarrow> string" where
  "orEmpty v = (case v of None \<Rightarrow> [] | Some s \<Rightarrow> s)"

text \<open>
  \<open>desc\<close> of the registry branch:
  \<open>info = latest && data.versions ? data.versions[latest] : data\<close>, then
  \<open>(info && info.description) || data.description || ''\<close>.
\<close>

definition registryDesc :: "registryDoc \<Rightarrow> string" where
  "registryDesc data =
     (let infoDescription =
        (case latest data of
           None \<Rightarrow> doc_description data
         | Some l \<Rightarrow>
             if l = [] then doc_description data
             else (case versions data of
                     None \<Rightarrow> doc_description data
                   | Some vs \<Rightarrow> (case vs l of None \<Rightarrow> None | Some info \<Rightarrow> pj_description info)))
      in if orEmpty infoDescription \<noteq> [] then orEmpty infoDescription
         else orEmpty (doc_description data))"

text \<open>\<open>desc\<close> of the unpkg branch: \<open>info && info.description ? info.description : ''\<close>.\<close>

definition unpkgDesc :: "packageJson \<Rightarrow> string" where
  "unpkgDesc info = orEmpty (pj_description info)"

text \<open>
  \<open>packageInfo\<close>. \<open>registry\<close> and \<open>unpkg\<close> are the two remote services, \<open>c\<close> the
  \<open>packageInfoCache\<close> map. In both fetching branches the cache is written from
  \<open>description\<close> before \<open>description\<close> is assigned, that is, while it still holds the
  empty string that made the branch run.
\<close>

definition packageInfo ::
  "(string \<Rightarrow> registryDoc fetched) \<Rightarrow> (string \<Rightarrow> packageJson fetched) \<Rightarrow>
   (string \<Rightarrow> string option) \<Rightarrow> string \<Rightarrow> lookup"
where
  "packageInfo registry unpkg c name =
     (let description = orEmpty (c name) in
      if description = [] then
        (case registry name of
           Body data \<Rightarrow>
             \<lparr>returned = registryDesc data, cache = c(name \<mapsto> description),
              requests = [Registry name]\<rparr>
         | Thrown \<Rightarrow>
             (case unpkg name of
                Body info \<Rightarrow>
                  \<lparr>returned = unpkgDesc info, cache = c(name \<mapsto> description),
                   requests = [Registry name, Unpkg name]\<rparr>
              | Thrown \<Rightarrow>
                  \<lparr>returned = description, cache = c(name \<mapsto> []),
                   requests = [Registry name, Unpkg name]\<rparr>))
      else \<lparr>returned = description, cache = c, requests = []\<rparr>)"

text \<open>
  A registry that knows one package, and a mirror that knows another which the registry
  does not.
\<close>

definition npmRegistry :: "string \<Rightarrow> registryDoc fetched" where
  "npmRegistry name =
     (if name = ''node-red-node-email'' then
        Body \<lparr>latest = Some ''1.0.0'',
              versions = Some [''1.0.0'' \<mapsto> \<lparr>pj_description = Some ''Email nodes''\<rparr>],
              doc_description = Some ''old text''\<rparr>
      else Thrown)"

definition unpkgMirror :: "string \<Rightarrow> packageJson fetched" where
  "unpkgMirror name =
     (if name = ''node-red-contrib-tally'' then Body \<lparr>pj_description = Some ''Tally nodes''\<rparr>
      else Thrown)"

section \<open>Graph merge engine: the merge path of \<open>handlePromptSubmit\<close>\<close>

text \<open>
  A graph node in wire format, used both for the nodes of the live graph and for the
  nodes a provider proposes. The six keys the merge treats specially are fields of their
  own (\<open>id\<close>, \<open>type\<close>, \<open>z\<close>, \<open>x\<close>, \<open>y\<close>, \<open>wires\<close>); \<open>node_props\<close> holds every other own
  key of the object (\<open>name\<close>, \<open>info\<close>, \<open>func\<close>, ...) with its value as opaque text.
  A coordinate is \<open>None\<close> when the key is absent or \<open>null\<close> (\<open>??\<close> treats both alike),
  and \<open>node_wires\<close> is \<open>None\<close> when \<open>Array.isArray(node.wires)\<close> is false.
\<close>

record node =
  node_id :: string
  node_type :: string
  node_z :: string
  node_x :: "int option"
  node_y :: "int option"
  node_wires :: "string list list option"
  node_props :: "string \<Rightarrow> string option"

text \<open>
  A link of the editor. The editor's link objects point to the source and target node
  objects; the merge only ever reads their \<open>id\<close>, which no step of it changes, so a link
  is kept as the two identifiers and the source port.
\<close>

record link =
  source :: string
  sourcePort :: nat
  target :: string

record graph =
  nodes :: "node list"
  links :: "link list"


subsection \<open>The editor primitives the merge calls\<close>

text \<open>
  The primitives below belong to the host editor (\<open>RED.nodes\<close>), not to this
  repository. They are modelled at the level the merge uses them: a graph is the list of
  all nodes (of every tab) and the list of all links.
\<close>









subsection \<open>The merge\<close>






text \<open>The keys the update loop does not copy.\<close>

definition skipKeys :: "string set" where
  "skipKeys = {''id'', ''type'', ''z'', ''x'', ''y'', ''wires''}"

text \<open>
  The field assignments of the update loop on the existing node object: every own key
  of the proposed node outside \<open>skipKeys\<close> is copied, then the coordinates, if the
  proposal has one.
\<close>

definition updateFields :: "node \<Rightarrow> node \<Rightarrow> node" where
  "updateFields newNode existingNode =
     (let copied = existingNode
            \<lparr>node_props := node_props existingNode ++ (node_props newNode |` (- skipKeys))\<rparr>
      in if node_x newNode \<noteq> None \<or> node_y newNode \<noteq> None then
           copied
             \<lparr>node_x := (case node_x newNode of Some v \<Rightarrow> Some v | None \<Rightarrow> node_x existingNode),
              node_y := (case node_y newNode of Some v \<Rightarrow> Some v | None \<Rightarrow> node_y existingNode)\<rparr>
         else copied)"












text \<open>The node \<open>n\<close> with the wires of the proposal \<open>p\<close>, when the proposal has a wires array.\<close>

definition withWires :: "node \<Rightarrow> node \<Rightarrow> node" where
  "withWires p n = (case node_wires p of None \<Rightarrow> n | Some ws \<Rightarrow> n\<lparr>node_wires := Some ws\<rparr>)"










section \<open>Prompt composer: \<open>serializeFlowContext\<close> in resources/ai-connectors/connector-utils.js\<close>

text \<open>
  The lengths and counts the function works on are non-negative integers below \<open>2^53\<close>,
  which are numbers exactly, and no result here comes near the overflow or underflow
  range; a value is kept as a pair \<open>(m, e)\<close> that stands for \<open>m * 2^e\<close>.
\<close>

text \<open>
  \<open>a / b\<close> for integers \<open>a \<ge> 0\<close> and \<open>b > 0\<close>: the exponent \<open>e\<close> is the one that puts
  \<open>a / (b * 2^e)\<close> between \<open>2^52\<close> and \<open>2^53\<close>, and the significand is that quotient
  rounded.
\<close>

definition js_div :: "int \<Rightarrow> int \<Rightarrow> double" where
  "js_div a b =
     (if a = 0 then (0, 0)
      else
        let k = bits a - bits b;
            lg = (if 0 \<le> k then (if b * 2 ^ nat k \<le> a then k else k - 1)
                  else (if b \<le> a * 2 ^ nat (- k) then k else k - 1));
            e = lg - 52
        in if 0 \<le> e then (roundHalfEven a (b * 2 ^ nat e), e)
           else (roundHalfEven (a * 2 ^ nat (- e)) b, e))"

text \<open>\<open>n * d\<close> for an integer \<open>n \<ge> 0\<close>: the exact product, rounded to 53 bits when it has more.\<close>

definition js_mul :: "int \<Rightarrow> double \<Rightarrow> double" where
  "js_mul n d =
     (let p = n * fst d in
      if bits p \<le> 53 then (p, snd d)
      else (roundHalfEven p (2 ^ nat (bits p - 53)), snd d + (bits p - 53)))"

text \<open>\<open>Math.floor\<close> of a non-negative number.\<close>

definition js_floor :: "double \<Rightarrow> int" where
  "js_floor d = (if 0 \<le> snd d then fst d * 2 ^ nat (snd d) else fst d div 2 ^ nat (- snd d))"

text \<open>
  The number of nodes kept:
  \<open>Math.max(1, Math.floor(nodes.length * (maxFlowContextChars / json.length)))\<close>.
\<close>

definition keepCount :: "nat \<Rightarrow> nat \<Rightarrow> nat \<Rightarrow> nat" where
  "keepCount nodeCount maxFlowContextChars jsonLength =
     nat (max 1 (js_floor (js_mul (int nodeCount)
                   (js_div (int maxFlowContextChars) (int jsonLength)))))"

text \<open>A non-negative integer in a template literal: its decimal digits.\<close>

function decimal :: "nat \<Rightarrow> string" where
  "decimal n = (if n < 10 then [''0123456789'' ! n]
                else decimal (n div 10) @ [''0123456789'' ! (n mod 10)])"
  by pat_completeness auto

termination
  by (relation "measure id") auto

declare decimal.simps [simp del]

definition truncationNotice :: "nat \<Rightarrow> nat \<Rightarrow> string" where
  "truncationNotice kc nodeCount =
     [CHR 0x0A, CHR 0x0A] @ ''/* NOTE: Flow truncated for context. Showing '' @ decimal kc
     @ '' of '' @ decimal nodeCount @ '' nodes. Preserve structure of unseen nodes. */''"

text \<open>
  \<open>serializeFlowContext(nodes, maxFlowContextChars)\<close>. \<open>stringify\<close> stands for the
  built-in \<open>JSON.stringify(_, null, 2)\<close> on node lists.
\<close>

definition serializeFlowContext :: "('n list \<Rightarrow> string) \<Rightarrow> 'n list \<Rightarrow> nat \<Rightarrow> string" where
  "serializeFlowContext stringify nodeList maxFlowContextChars =
     (let json = stringify nodeList in
      if length json \<le> maxFlowContextChars then json
      else
        let kc = keepCount (length nodeList) maxFlowContextChars (length json);
            trimmed = take kc nodeList;
            trimmedJson = stringify trimmed
        in trimmedJson @ truncationNotice kc (length nodeList))"

text \<open>
  The retained count as the specification words it, \<open>max(1, floor(n * budget / fullLength))\<close>,
  in exact arithmetic.
\<close>

definition spec_keepCount :: "nat \<Rightarrow> nat \<Rightarrow> nat \<Rightarrow> nat" where
  "spec_keepCount n budget fullLength = max 1 (n * budget div fullLength)"

text \<open>
  \<open>JSON.stringify(nodes, null, 2)\<close> for a list of flat objects whose values are strings
  that need no escaping: each object is a list of key and value pairs.
\<close>

definition quoted :: "string \<Rightarrow> string" where
  "quoted s = CHR 0x22 # s @ [CHR 0x22]"

definition stringifyObject :: "(string \<times> string) list \<Rightarrow> string" where
  "stringifyObject obj =
     (if obj = [] then ''{}''
      else ''{'' @ [CHR 0x0A]
           @ join ('','' @ [CHR 0x0A]) (map (\<lambda>(k, v). ''    '' @ quoted k @ '': '' @ quoted v) obj)
           @ [CHR 0x0A] @ ''  }'')"

definition stringifyNodes :: "(string \<times> string) list list \<Rightarrow> string" where
  "stringifyNodes ns =
     (if ns = [] then ''[]''
      else ''['' @ [CHR 0x0A]
           @ join ('','' @ [CHR 0x0A]) (map (\<lambda>obj. ''  '' @ stringifyObject obj) ns)
           @ [CHR 0x0A] @ '']'')"

definition nodes22 :: "(string \<times> string) list list" where
  "nodes22 = [(''id'', ''inject-node-000000000'')]
             # map (\<lambda>c. [(''id'', [c])]) ''bcdefghijklmnopqrstuv''"

section \<open>Sync state: \<open>resyncNodeWithAI\<close> and its callers in resources/node-tooltip.js\<close>

text \<open>
  The editor page runs one handler at a time; a handler runs until it returns or reaches
  an \<open>await\<close>, and what follows an awaited call runs as a handler of its own once the
  call settles. The state below is what the resync handlers share. For each node: its
  \<open>info\<close> text, its functional fields (as the text \<open>JSON.stringify\<close> gives for them),
  the \<open>semanticNodeRegistry\<close> entry (the \<open>info\<close> last synchronised), the
  \<open>nodeFunctionalState\<close> entry (the functional fields last stored) and the status shown.
  Then the resync calls that have started and not yet finished, one entry per call in the
  order they started, and the calls that have finished.
\<close>

datatype direction = InfoToLogic | LogicToInfo

record editor =
  nodeInfo :: "string \<Rightarrow> string"
  nodeFunctional :: "string \<Rightarrow> string"
  registryInfo :: "string \<Rightarrow> string option"
  storedFunctional :: "string \<Rightarrow> string option"
  shownStatus :: "string \<Rightarrow> syncStatus"
  inFlight :: "(string \<times> direction) list"
  finished :: "(string \<times> direction) list"

text \<open>
  \<open>resyncNodeWithAI\<close> from its entry to its first \<open>await\<close>: the node is marked syncing
  and the provider call is issued. Nothing is read before that, neither the status nor
  the calls under way.
\<close>

definition resyncStart :: "string \<Rightarrow> direction \<Rightarrow> editor \<Rightarrow> editor" where
  "resyncStart nodeId dir s =
     s\<lparr>shownStatus := (shownStatus s)(nodeId := Syncing),
       inFlight := inFlight s @ [(nodeId, dir)]\<rparr>"

text \<open>\<open>functionalPropertiesChanged\<close>\<close>

definition functionalPropertiesChanged :: "string \<Rightarrow> editor \<Rightarrow> bool" where
  "functionalPropertiesChanged nodeId s =
     (case storedFunctional s nodeId of
        None \<Rightarrow> False
      | Some previous \<Rightarrow> nodeFunctional s nodeId \<noteq> previous)"

text \<open>The \<open>nodes:change\<close> handler (the tooltip refresh after it shares no state).\<close>

definition onNodesChange :: "string \<Rightarrow> editor \<Rightarrow> editor" where
  "onNodesChange nodeId s =
     (if functionalPropertiesChanged nodeId s then resyncStart nodeId LogicToInfo s else s)"

text \<open>
  What a settled provider call brings: a failure, or the node's \<open>info\<close> and functional
  fields as the success branch leaves them (\<open>Object.assign(node, data.updatedNode)\<close> in
  one direction, \<open>node.info = data.description\<close> in the other).
\<close>

datatype reply = Failed | Updated string string

text \<open>
  \<open>resyncNodeWithAI\<close> from the settling of its awaited call to its end. On success the
  node is written, the registry records its \<open>info\<close> and \<open>storeFunctionalState\<close> records
  its functional fields; the description direction then emits \<open>nodes:change\<close>. On
  failure nothing is written. The \<open>finally\<close> block marks the node idle either way.
\<close>

definition resyncFinish :: "string \<Rightarrow> direction \<Rightarrow> reply \<Rightarrow> editor \<Rightarrow> editor" where
  "resyncFinish nodeId dir out s =
     (let s1 = (case out of
                  Failed \<Rightarrow> s
                | Updated newInfo newFunctional \<Rightarrow>
                    (case dir of
                       InfoToLogic \<Rightarrow>
                         s\<lparr>nodeInfo := (nodeInfo s)(nodeId := newInfo),
                           nodeFunctional := (nodeFunctional s)(nodeId := newFunctional),
                           registryInfo := (registryInfo s)(nodeId \<mapsto> newInfo),
                           storedFunctional := (storedFunctional s)(nodeId \<mapsto> newFunctional)\<rparr>
                     | LogicToInfo \<Rightarrow>
                         onNodesChange nodeId
                           (s\<lparr>nodeInfo := (nodeInfo s)(nodeId := newInfo),
                              registryInfo := (registryInfo s)(nodeId \<mapsto> newInfo),
                              storedFunctional :=
                                (storedFunctional s)(nodeId \<mapsto> nodeFunctional s nodeId)\<rparr>)))
      in s1\<lparr>shownStatus := (shownStatus s1)(nodeId := Idle),
            inFlight := remove1 (nodeId, dir) (inFlight s1),
            finished := finished s1 @ [(nodeId, dir)]\<rparr>)"

text \<open>
  \<open>saveAndExitEditMode\<close>: the user saves the text \<open>newText\<close> edited in the tooltip of
  a node; \<open>rawInfo\<close> is the \<open>info\<close> the tooltip was built from. When the two differ,
  the node takes the new text, \<open>nodes:change\<close> is emitted, and a resync is started if
  the text also differs from the registry entry read before the node was written.
\<close>

definition saveAndExitEditMode :: "string \<Rightarrow> string \<Rightarrow> string \<Rightarrow> editor \<Rightarrow> editor" where
  "saveAndExitEditMode newText rawInfo nodeId s =
     (if newText \<noteq> rawInfo then
        let infoChanged = (case registryInfo s nodeId of None \<Rightarrow> True | Some r \<Rightarrow> r \<noteq> newText);
            s1 = s\<lparr>nodeInfo := (nodeInfo s)(nodeId := newText)\<rparr>;
            s2 = onNodesChange nodeId s1
        in if infoChanged then resyncStart nodeId InfoToLogic s2 else s2
      else s)"

text \<open>
  The handlers, one per event: the user saving an edited text, the user changing a
  node's functional fields (the editor then emits \<open>nodes:change\<close>), the retry controller
  entering and leaving its wait for a call under way, and a call under way settling.
\<close>

datatype event =
    SaveEdit string string string
  | EditLogic string string
  | RateLimited string
  | WaitOver string
  | Settled string direction reply

fun handle :: "event \<Rightarrow> editor \<Rightarrow> editor" where
  "handle (SaveEdit nodeId rawInfo newText) s = saveAndExitEditMode newText rawInfo nodeId s"
| "handle (EditLogic nodeId newFunctional) s =
     onNodesChange nodeId (s\<lparr>nodeFunctional := (nodeFunctional s)(nodeId := newFunctional)\<rparr>)"
| "handle (RateLimited nodeId) s =
     (if nodeId \<in> fst ` set (inFlight s)
      then s\<lparr>shownStatus := (shownStatus s)(nodeId := Waiting)\<rparr> else s)"
| "handle (WaitOver nodeId) s =
     (if nodeId \<in> fst ` set (inFlight s)
      then s\<lparr>shownStatus := (shownStatus s)(nodeId := Syncing)\<rparr> else s)"
| "handle (Settled nodeId dir out) s =
     (if (nodeId, dir) \<in> set (inFlight s) then resyncFinish nodeId dir out s else s)"

definition runEvents :: "event list \<Rightarrow> editor \<Rightarrow> editor" where
  "runEvents evs s = fold handle evs s"

text \<open>An editor with every node synchronised and no call under way.\<close>

definition quietEditor :: editor where
  "quietEditor =
     \<lparr>nodeInfo = (\<lambda>i. ''log the payload''),
      nodeFunctional = (\<lambda>i. ''{}''),
      registryInfo = (\<lambda>i. Some ''log the payload''),
      storedFunctional = (\<lambda>i. Some ''{}''),
      shownStatus = (\<lambda>i. Idle), inFlight = [], finished = []\<rparr>"

definition twoEdits :: "event list" where
  "twoEdits = [SaveEdit ''n1'' ''log the payload'' ''log the topic'',
               SaveEdit ''n1'' ''log the topic'' ''log the topic twice'']"

section \<open>Reply parsing: the connectors in resources/ai-connectors/openai-connector-node.js\<close>

text \<open>
  A JavaScript string is a sequence of 16-bit code units. The parsing of a reply depends
  on code units beyond Latin-1 (the line separators U+2028 and U+2029), so the reply is
  modelled with them; \<open>str\<close> embeds a literal.
\<close>

type_synonym codeUnit = "16 word"

type_synonym jsString = "codeUnit list"

definition str :: "string \<Rightarrow> jsString" where
  "str s = map of_char s"

text \<open>
  The line terminators and the white space of ECMAScript. \<open>String.prototype.trim\<close> and
  the class \<open>\s\<close> of a regular expression take both; \<open>^\<close> and \<open>$\<close> under the flag \<open>m\<close>
  look at the line terminators.
\<close>

definition isLineTerminator :: "codeUnit \<Rightarrow> bool" where
  "isLineTerminator c = (c = 0x0A \<or> c = 0x0D \<or> c = 0x2028 \<or> c = 0x2029)"

definition isWhiteSpace :: "codeUnit \<Rightarrow> bool" where
  "isWhiteSpace c =
     (c = 0x09 \<or> c = 0x0B \<or> c = 0x0C \<or> c = 0x20 \<or> c = 0xA0 \<or> c = 0x1680
      \<or> (0x2000 \<le> c \<and> c \<le> 0x200A) \<or> c = 0x202F \<or> c = 0x205F \<or> c = 0x3000
      \<or> c = 0xFEFF)"

definition isSpace :: "codeUnit \<Rightarrow> bool" where
  "isSpace c = (isWhiteSpace c \<or> isLineTerminator c)"

definition trim :: "jsString \<Rightarrow> jsString" where
  "trim s = rev (dropWhile isSpace (rev (dropWhile isSpace s)))"

text \<open>
  The regular expression \<open>/^```(?:json)?\s*\n?([\s\S]*?)\n?```$/m\<close>, matched as a
  backtracking matcher does: the alternatives of each part in the order of their
  priority, the first that lets the rest match being taken.

  \<open>atLineEnd\<close> is \<open>$\<close>; \<open>closes\<close> is the closing three backticks followed by \<open>$\<close>;
  \<open>closer\<close> is \<open>\n?\<close> followed by them (the newline is taken first, then left out).
\<close>

definition atLineEnd :: "jsString \<Rightarrow> bool" where
  "atLineEnd r = (case r of [] \<Rightarrow> True | c # _ \<Rightarrow> isLineTerminator c)"

fun closes :: "jsString \<Rightarrow> bool" where
  "closes (a # b # c # r) = (a = 0x60 \<and> b = 0x60 \<and> c = 0x60 \<and> atLineEnd r)"
| "closes _ = False"

definition closer :: "jsString \<Rightarrow> bool" where
  "closer r = ((case r of [] \<Rightarrow> False | c # r' \<Rightarrow> c = 0x0A \<and> closes r') \<or> closes r)"

text \<open>
  The group \<open>([\s\S]*?)\<close> is lazy: it takes the shortest run of code units after which
  the rest of the expression matches.
\<close>

fun lazyCapture :: "jsString \<Rightarrow> jsString option" where
  "lazyCapture [] = (if closer [] then Some [] else None)"
| "lazyCapture (c # r) =
     (if closer (c # r) then Some [] else map_option (Cons c) (lazyCapture r))"

fun firstMatch :: "('a \<Rightarrow> 'b option) \<Rightarrow> 'a list \<Rightarrow> 'b option" where
  "firstMatch f [] = None"
| "firstMatch f (x # xs) = (case f x of Some y \<Rightarrow> Some y | None \<Rightarrow> firstMatch f xs)"

text \<open>
  What is left of the text after \<open>(?:json)?\<close>, after \<open>\s*\<close> and after \<open>\n?\<close>, in the order
  tried: \<open>?\<close> and \<open>*\<close> are greedy, so the longest alternative comes first.
\<close>

definition optionalTag :: "jsString \<Rightarrow> jsString list" where
  "optionalTag r = (if prefix (str ''json'') r then [drop 4 r, r] else [r])"

definition spaceRuns :: "jsString \<Rightarrow> jsString list" where
  "spaceRuns r = map (\<lambda>j. drop j r) (rev [0 ..< Suc (length (takeWhile isSpace r))])"

definition optionalNewline :: "jsString \<Rightarrow> jsString list" where
  "optionalNewline r = (case r of [] \<Rightarrow> [r] | c # r' \<Rightarrow> if c = 0x0A then [r', r] else [r])"

text \<open>The expression after \<open>^\<close>, matched at the start of \<open>s\<close>; the result is the group.\<close>

fun matchHere :: "jsString \<Rightarrow> jsString option" where
  "matchHere (a # b # c # r) =
     (if a = 0x60 \<and> b = 0x60 \<and> c = 0x60
      then firstMatch (\<lambda>r1. firstMatch (\<lambda>r2. firstMatch lazyCapture (optionalNewline r2))
                               (spaceRuns r1))
             (optionalTag r)
      else None)"
| "matchHere _ = None"

text \<open>
  \<open>String.prototype.match\<close>: the first position, from the left, where the expression
  matches. \<open>lineStart\<close> is \<open>^\<close>: the position is the start of the text or follows a line
  terminator.
\<close>

fun codeBlockMatch :: "bool \<Rightarrow> jsString \<Rightarrow> jsString option" where
  "codeBlockMatch lineStart [] = (if lineStart then matchHere [] else None)"
| "codeBlockMatch lineStart (c # r) =
     (case (if lineStart then matchHere (c # r) else None) of
        Some cap \<Rightarrow> Some cap
      | None \<Rightarrow> codeBlockMatch (isLineTerminator c) r)"

text \<open>The text handed to \<open>JSON.parse\<close>.\<close>

definition cleanContent :: "jsString \<Rightarrow> jsString" where
  "cleanContent content =
     (let trimmed = trim content
      in case codeBlockMatch True trimmed of
           Some cap \<Rightarrow> trim cap
         | None \<Rightarrow> trimmed)"

text \<open>
  The outcome of the parsing stage of a connector method: the parsed value, or the
  \<open>error\<close> of the failure result.
\<close>

datatype 'a parseOutput = Parsed 'a | Error jsString

definition invalidJson :: "jsString \<Rightarrow> jsString" where
  "invalidJson preview = str ''AI returned invalid JSON. Response preview: '' @ preview"

text \<open>
  \<open>generateFlow\<close> and \<open>resyncNode\<close>, from the content of the reply to the parsed value.
  \<open>parse\<close> is \<open>JSON.parse\<close>, with \<open>None\<close> for a thrown \<open>SyntaxError\<close>. An absent content
  takes the branch of the empty one.
\<close>

definition generateFlow_parse :: "(jsString \<Rightarrow> 'a option) \<Rightarrow> jsString \<Rightarrow> 'a parseOutput" where
  "generateFlow_parse parse content =
     (if content = [] then Error (str ''No content in response'')
      else case parse (cleanContent content) of
             None \<Rightarrow> Error (invalidJson (take 200 content))
           | Some parsed \<Rightarrow> Parsed parsed)"

text \<open>
  \<open>generateDescription\<close>, likewise, with its own message for an empty content; its
  preview is \<open>cleanContent.substring(0, 200)\<close>.
\<close>

definition generateDescription_parse :: "(jsString \<Rightarrow> 'a option) \<Rightarrow> jsString \<Rightarrow> 'a parseOutput" where
  "generateDescription_parse parse content =
     (if content = [] then Error (str ''No description in response'')
      else case parse (cleanContent content) of
             None \<Rightarrow> Error (invalidJson (take 200 (cleanContent content)))
           | Some parsed \<Rightarrow> Parsed parsed)"

text \<open>A reply text inside a fenced block, with the language tag \<open>tag\<close>.\<close>

definition fenced :: "jsString \<Rightarrow> jsString \<Rightarrow> jsString" where
  "fenced tag t = [0x60, 0x60, 0x60] @ tag @ [0x0A] @ t @ [0x0A, 0x60, 0x60, 0x60]"

text \<open>Some place of the text holds three backticks followed by the end of a line.\<close>

fun hasClosingFence :: "jsString \<Rightarrow> bool" where
  "hasClosingFence [] = False"
| "hasClosingFence (c # r) = (closes (c # r) \<or> hasClosingFence r)"

text \<open>
  A stand-in for \<open>JSON.parse\<close> in the examples: it accepts a text enclosed in braces or
  in brackets and returns it as it is. \<open>JSON.parse\<close> accepts each example text that it
  accepts and rejects each that it rejects.
\<close>

definition bracketed :: "jsString \<Rightarrow> jsString option" where
  "bracketed s =
     (if s \<noteq> [] \<and> ((hd s = 0x7B \<and> last s = 0x7D) \<or> (hd s = 0x5B \<and> last s = 0x5D))
      then Some s else None)"

text \<open>
  The JSON text of an object whose one string holds \<open>[1]\<close> between two runs of three
  backticks, with a line separator U+2028 before the first and after the second.
\<close>

definition separatorObject :: jsString where
  "separatorObject =
     str ''{\"a\":\"'' @ [0x2028, 0x60, 0x60, 0x60] @ str ''[1]''
     @ [0x60, 0x60, 0x60, 0x2028] @ str ''\"}''"

text \<open>The JSON text of an object, and a text of 205 code units that is not JSON.\<close>

definition flowObject :: jsString where
  "flowObject = str ''{\"flow\":[],\"flowName\":\"empty\"}''"

definition longApology :: jsString where
  "longApology = str ''I am sorry, but '' @ concat (replicate 42 (str ''no, '')) @ str ''no flow can be built.''"

section \<open>Properties: JavaScript numbers\<close>

lemma bits_nonneg: "0 \<le> bits a"
  by (induction a rule: bits.induct) (subst bits.simps, simp)

lemma bits_zero: "bits 0 = 0"
  by (subst bits.simps) simp



lemma bits_bound: "a < 2 ^ j \<Longrightarrow> bits a \<le> int j"
proof (induction j arbitrary: a)
  case 0
  then have "a \<le> 0" by simp
  then show ?case by (subst bits.simps) simp
next
  case (Suc j)
  show ?case
  proof (cases "a \<le> 0")
    case True
    then show ?thesis by (subst bits.simps) simp
  next
    case False
    from Suc.prems have "a div 2 < 2 ^ j" by simp
    from Suc.IH [OF this] False show ?thesis by (subst bits.simps) simp
  qed
qed








lemma bits_lower: "a < 2 ^ nat (bits a)"
proof (induction a rule: bits.induct)
  case (1 n)
  show ?case
  proof (cases "n \<le> 0")
    case True
    then have "n < 1" by simp
    then show ?thesis by (subst bits.simps) (simp add: True)
  next
    case False
    from "1.IH" [OF False] have ih: "n div 2 < 2 ^ nat (bits (n div 2))" .
    have b: "bits n = 1 + bits (n div 2)" using False by (subst bits.simps) simp
    have "0 \<le> bits (n div 2)" by (rule bits_nonneg)
    then have "nat (bits n) = Suc (nat (bits (n div 2)))" using b by simp
    moreover have "n < 2 * 2 ^ nat (bits (n div 2))" using ih by linarith
    ultimately show ?thesis by simp
  qed
qed

section \<open>Properties: Retry/backoff controller: \<open>with429Retry\<close> in resources/node-tooltip.js\<close>

lemma loop_skip_rate_limited:
  "attempt + k \<le> 10 \<Longrightarrow> (\<forall>j<k. rateLimited (requestFn (calls + j))) \<Longrightarrow>
   with429Retry_loop requestFn attempt calls ws st =
   with429Retry_loop requestFn (attempt + k) (calls + k)
     (ws @ map (\<lambda>j. waitMs (rejection (requestFn (calls + j)))) [0..<k])
     (st @ concat (replicate k [Waiting, Syncing]))"
proof (induction k arbitrary: attempt calls ws st)
  case 0
  then show ?case by simp
next
  case (Suc k)
  from Suc.prems(2) have "rateLimited (requestFn (calls + 0))" by blast
  then obtain e where e: "requestFn calls = Rejected e" "is429 e"
    by (auto simp: rateLimited_def split: outcome.splits)
  have rest: "\<forall>j<k. rateLimited (requestFn (Suc calls + j))"
  proof (intro allI impI)
    fix j assume "j < k"
    then have "Suc j < Suc k" by simp
    with Suc.prems(2) have "rateLimited (requestFn (calls + Suc j))" by blast
    then show "rateLimited (requestFn (Suc calls + j))" by simp
  qed
  have att: "attempt < 10" "Suc attempt + k \<le> 10" using Suc.prems(1) by auto
  have shift: "map (\<lambda>j. waitMs (rejection (requestFn (calls + j)))) [0..<Suc k] =
               waitMs e # map (\<lambda>j. waitMs (rejection (requestFn (Suc calls + j)))) [0..<k]"
    using e by (simp add: upt_rec [of 0] map_Suc_upt [symmetric] rejection_def del: upt_Suc)
  have "with429Retry_loop requestFn attempt calls ws st =
        with429Retry_loop requestFn (Suc attempt) (Suc calls)
          (ws @ [waitMs e]) (st @ [Waiting, Syncing])"
    using att(1) e by (subst with429Retry_loop.simps) simp
  also have "\<dots> = with429Retry_loop requestFn (Suc attempt + k) (Suc calls + k)
      ((ws @ [waitMs e]) @ map (\<lambda>j. waitMs (rejection (requestFn (Suc calls + j)))) [0..<k])
      ((st @ [Waiting, Syncing]) @ concat (replicate k [Waiting, Syncing]))"
    by (rule Suc.IH [OF att(2) rest])
  finally show ?case by (simp only: shift) simp
qed


text \<open>
  C5. Retry ceiling and non-retryable failures. When every invocation of the wrapped call
  is rejected with status 429, the wrapper invokes it exactly 10 times and then fails with
  the error "Maximum retry attempts reached due to rate limiting". When the first
  rejection that is not a 429 comes at invocation \<open>k\<close> (after \<open>k\<close> rate-limited ones,
  \<open>k < 10\<close>), that very error is the wrapper's failure and the call has been invoked
  \<open>k + 1\<close> times: nothing is invoked after it.
\<close>

theorem retry_ceiling_and_propagation:
  "((\<forall>k<10. rateLimited (requestFn k)) \<longrightarrow>
      result (with429Retry requestFn) =
        Inl \<lparr>response = None, message = ''Maximum retry attempts reached due to rate limiting''\<rparr>
      \<and> invocations (with429Retry requestFn) = 10) \<and>
   (\<forall>k e. k < 10 \<and> (\<forall>j<k. rateLimited (requestFn j)) \<and> requestFn k = Rejected e \<and> \<not> is429 e \<longrightarrow>
      result (with429Retry requestFn) = Inl e \<and> invocations (with429Retry requestFn) = Suc k)"
proof (intro conjI impI allI)
  assume all: "\<forall>k<10. rateLimited (requestFn k)"
  have "with429Retry requestFn =
        with429Retry_loop requestFn 10 10
          ([] @ map (\<lambda>j. waitMs (rejection (requestFn (0 + j)))) [0..<10])
          ([] @ concat (replicate 10 [Waiting, Syncing]))"
    unfolding with429Retry_def
    using loop_skip_rate_limited [of 0 10 requestFn 0 "[]" "[]"] all by simp
  then have run: "with429Retry requestFn =
        \<lparr>result = Inl maxRetryError, invocations = 10,
         waited = [] @ map (\<lambda>j. waitMs (rejection (requestFn (0 + j)))) [0..<10],
         statusLog = [] @ concat (replicate 10 [Waiting, Syncing])\<rparr>"
    by (subst (asm) with429Retry_loop.simps) simp
  show "result (with429Retry requestFn) =
        Inl \<lparr>response = None, message = ''Maximum retry attempts reached due to rate limiting''\<rparr>"
    by (subst run) (simp add: maxRetryError_def)
  show "invocations (with429Retry requestFn) = 10"
    by (subst run) simp
next
  fix k e
  assume h: "k < 10 \<and> (\<forall>j<k. rateLimited (requestFn j)) \<and> requestFn k = Rejected e \<and> \<not> is429 e"
  have "with429Retry requestFn =
        with429Retry_loop requestFn k k
          ([] @ map (\<lambda>j. waitMs (rejection (requestFn (0 + j)))) [0..<k])
          ([] @ concat (replicate k [Waiting, Syncing]))"
    unfolding with429Retry_def
    using loop_skip_rate_limited [of 0 k requestFn 0 "[]" "[]"] h by simp
  then have run: "with429Retry requestFn =
        \<lparr>result = Inl e, invocations = Suc k,
         waited = [] @ map (\<lambda>j. waitMs (rejection (requestFn (0 + j)))) [0..<k],
         statusLog = [] @ concat (replicate k [Waiting, Syncing])\<rparr>"
    using h by (subst (asm) with429Retry_loop.simps) simp
  show "result (with429Retry requestFn) = Inl e" by (subst run) simp
  show "invocations (with429Retry requestFn) = Suc k" by (subst run) simp
qed

lemma rateLimited_rateLimitError: "rateLimited (Rejected (rateLimitError h))"
  by (simp add: rateLimited_def is429_def rateLimitError_def)

lemma not_is429_serverError: "\<not> is429 serverError"
  by (simp add: is429_def serverError_def)

theorem retry_ceiling_and_propagation_witness:
  "result (with429Retry (\<lambda>k. Rejected (rateLimitError (Seconds (2, 0))) :: unit outcome)) =
     Inl \<lparr>response = None, message = ''Maximum retry attempts reached due to rate limiting''\<rparr>
   \<and> invocations (with429Retry (\<lambda>k. Rejected (rateLimitError (Seconds (2, 0))) :: unit outcome)) = 10
   \<and> result (with429Retry (\<lambda>k. if k < 3 then Rejected (rateLimitError Undefined)
                                 else Rejected serverError :: unit outcome)) = Inl serverError
   \<and> invocations (with429Retry (\<lambda>k. if k < 3 then Rejected (rateLimitError Undefined)
                                      else Rejected serverError :: unit outcome)) = 4"
proof -
  let ?f = "\<lambda>k::nat. Rejected (rateLimitError (Seconds (2, 0))) :: unit outcome"
  let ?g = "\<lambda>k::nat. if k < 3 then Rejected (rateLimitError Undefined)
                      else Rejected serverError :: unit outcome"
  have f: "\<forall>k<10. rateLimited (?f k)"
    by (simp add: rateLimited_rateLimitError)
  have g: "(3::nat) < 10 \<and> (\<forall>j<3. rateLimited (?g j)) \<and> ?g 3 = Rejected serverError
           \<and> \<not> is429 serverError"
    by (simp add: rateLimited_rateLimitError not_is429_serverError)
  from retry_ceiling_and_propagation [of ?f] f
  have 1: "result (with429Retry ?f) =
        Inl \<lparr>response = None, message = ''Maximum retry attempts reached due to rate limiting''\<rparr>
      \<and> invocations (with429Retry ?f) = 10"
    by blast
  from retry_ceiling_and_propagation [of ?g] g
  have 2: "result (with429Retry ?g) = Inl serverError \<and> invocations (with429Retry ?g) = Suc 3"
    by blast
  from 1 2 show ?thesis by simp
qed








section \<open>Properties: Connector configuration validation: \<open>validateConfig\<close>\<close>

lemma sublist_join: "x \<in> set xs \<Longrightarrow> sublist x (join sep xs)"
proof (induction sep xs rule: join.induct)
  case (1 sep)
  then show ?case by simp
next
  case (2 sep y)
  then show ?case by simp
next
  case (3 sep a b ys)
  show ?case
  proof (cases "x = a")
    case True
    then have "sublist x (x @ (sep @ join sep (b # ys)))"
      unfolding sublist_def by (metis append_Nil)
    with True show ?thesis by simp
  next
    case False
    with 3 have "sublist x (join sep (b # ys))" by simp
    then have "sublist x ((a @ sep) @ join sep (b # ys))"
      unfolding sublist_def by (metis append.assoc)
    then show ?thesis by simp
  qed
qed

lemma required_nonempty: "required p \<noteq> []"
  by (cases p) simp_all

lemma validateConfig_names_missing:
  assumes "f \<in> set (required p)" "\<not> truthy (config f)"
  shows "valid (validateConfig p config) = False \<and>
         (\<exists>m\<in>set (errors (validateConfig p config)). sublist f m)"
proof -
  let ?missing = "filter (\<lambda>field. \<not> truthy (config field)) (required p)"
  from assms have mem: "f \<in> set ?missing" by simp
  then have ne: "length ?missing > 0" by (cases ?missing) simp_all
  have "sublist f (join '', '' ?missing)" using mem by (rule sublist_join)
  then have "sublist f (''Missing required fields: '' @ join '', '' ?missing)"
    unfolding sublist_def by (metis append.assoc)
  with ne show ?thesis by (simp add: validateConfig_def Let_def)
qed

text \<open>
  C7. validateConfig completeness. Called with the empty configuration, every
  connector's validateConfig returns \<open>valid = false\<close> and a non-empty \<open>errors\<close> list whose
  message names every required field; on any configuration, each required field that is
  missing (undefined or empty) is named, so the check does not stop at the first one; and
  when every required field is set, the result is \<open>valid = true\<close> with \<open>errors = []\<close>.
\<close>

theorem validateConfig_complete:
  "valid (validateConfig p Map.empty) = False
   \<and> errors (validateConfig p Map.empty) \<noteq> []
   \<and> (\<forall>f\<in>set (required p). \<exists>m\<in>set (errors (validateConfig p Map.empty)). sublist f m)
   \<and> (\<forall>f\<in>set (required p). \<not> truthy (config f) \<longrightarrow>
         valid (validateConfig p config) = False
         \<and> (\<exists>m\<in>set (errors (validateConfig p config)). sublist f m))
   \<and> ((\<forall>f\<in>set (required p). truthy (config f)) \<longrightarrow>
         validateConfig p config = \<lparr>valid = True, errors = []\<rparr>)"
proof -
  have empty: "\<not> truthy (Map.empty f)" for f :: string by (simp add: truthy_def)
  obtain f0 where f0: "f0 \<in> set (required p)"
    using required_nonempty [of p] by (cases "required p") auto
  have 1: "valid (validateConfig p Map.empty) = False"
    using validateConfig_names_missing [OF f0 empty] by blast
  have 2: "errors (validateConfig p Map.empty) \<noteq> []"
    using validateConfig_names_missing [OF f0 empty] by auto
  have 3: "\<forall>f\<in>set (required p). \<exists>m\<in>set (errors (validateConfig p Map.empty)). sublist f m"
    using validateConfig_names_missing [OF _ empty] by blast
  have 4: "\<forall>f\<in>set (required p). \<not> truthy (config f) \<longrightarrow>
         valid (validateConfig p config) = False
         \<and> (\<exists>m\<in>set (errors (validateConfig p config)). sublist f m)"
    using validateConfig_names_missing by blast
  have 5: "(\<forall>f\<in>set (required p). truthy (config f)) \<longrightarrow>
         validateConfig p config = \<lparr>valid = True, errors = []\<rparr>"
  proof
    assume "\<forall>f\<in>set (required p). truthy (config f)"
    then have "filter (\<lambda>field. \<not> truthy (config field)) (required p) = []"
      by (simp add: filter_empty_conv)
    then show "validateConfig p config = \<lparr>valid = True, errors = []\<rparr>"
      by (simp add: validateConfig_def)
  qed
  from 1 2 3 4 5 show ?thesis by blast
qed

theorem validateConfig_complete_witness:
  "validateConfig AzureOpenAI Map.empty =
     \<lparr>valid = False,
      errors = [''Missing required fields: endpoint, apiKey, deploymentName'']\<rparr>
   \<and> sublist ''deploymentName'' ''Missing required fields: endpoint, apiKey, deploymentName''
   \<and> validateConfig AzureOpenAI azurePartial =
     \<lparr>valid = False, errors = [''Missing required fields: apiKey, deploymentName'']\<rparr>
   \<and> validateConfig AzureOpenAI azureConfig = \<lparr>valid = True, errors = []\<rparr>"
proof -
  note inst = validateConfig_complete [of AzureOpenAI azureConfig]
  have e: "validateConfig AzureOpenAI Map.empty =
     \<lparr>valid = False,
      errors = [''Missing required fields: endpoint, apiKey, deploymentName'']\<rparr>"
    by (simp add: validateConfig_def truthy_def)
  have "\<exists>m\<in>set (errors (validateConfig AzureOpenAI Map.empty)). sublist ''deploymentName'' m"
    using inst by simp
  then have s: "sublist ''deploymentName''
                  ''Missing required fields: endpoint, apiKey, deploymentName''"
    by (simp add: e)
  have p: "validateConfig AzureOpenAI azurePartial =
     \<lparr>valid = False, errors = [''Missing required fields: apiKey, deploymentName'']\<rparr>"
    by (simp add: validateConfig_def truthy_def azurePartial_def)
  have "\<forall>f\<in>set (required AzureOpenAI). truthy (azureConfig f)"
    by (simp add: truthy_def azureConfig_def)
  with inst have v: "validateConfig AzureOpenAI azureConfig = \<lparr>valid = True, errors = []\<rparr>"
    by blast
  from e s p v show ?thesis by blast
qed

section \<open>Properties: Package description lookup: \<open>packageInfo\<close> of the plugin entry point\<close>

lemma packageInfo_uncached:
  assumes "c name = None"
  shows "packageInfo registry unpkg c name =
           (case registry name of
              Body data \<Rightarrow>
                \<lparr>returned = registryDesc data, cache = c(name \<mapsto> []),
                 requests = [Registry name]\<rparr>
            | Thrown \<Rightarrow>
                (case unpkg name of
                   Body info \<Rightarrow>
                     \<lparr>returned = unpkgDesc info, cache = c(name \<mapsto> []),
                      requests = [Registry name, Unpkg name]\<rparr>
                 | Thrown \<Rightarrow>
                     \<lparr>returned = [], cache = c(name \<mapsto> []),
                      requests = [Registry name, Unpkg name]\<rparr>))"
  using assms by (simp add: packageInfo_def orEmpty_def Let_def split: fetched.splits)

lemma registryDesc_version:
  assumes "latest data = Some l" "l \<noteq> []" "versions data = Some vs" "vs l = Some info"
    and "pj_description info = Some d" "d \<noteq> []"
  shows "registryDesc data = d"
  using assms by (simp add: registryDesc_def orEmpty_def Let_def)

lemma registryDesc_undescribed:
  assumes "latest data = Some l" "l \<noteq> []" "versions data = Some vs"
    and "vs l = None \<or> (\<exists>info. vs l = Some info
           \<and> (pj_description info = None \<or> pj_description info = Some []))"
  shows "registryDesc data = (case doc_description data of None \<Rightarrow> [] | Some d \<Rightarrow> d)"
  using assms
  by (auto simp: registryDesc_def orEmpty_def Let_def split: option.splits)

lemma registryDesc_document:
  assumes "latest data = None \<or> latest data = Some [] \<or> versions data = None"
  shows "registryDesc data = (case doc_description data of None \<Rightarrow> [] | Some d \<Rightarrow> d)"
  using assms
  by (auto simp: registryDesc_def orEmpty_def Let_def split: option.splits)

text \<open>
  C10. For a package name that the cache does not hold, \<open>packageInfo\<close> returns the
  description fetched from the registry: the description of the latest version when the
  registry document names one that has a description, and otherwise the description of
  the document itself (empty when it has none). When the registry
  call fails it returns the description of the \<open>package.json\<close> fetched from unpkg, and
  the empty string when that call fails too. Yet the cache entry it writes for the name
  is the empty string in every case, never the fetched description. The next lookup of
  the same name therefore finds no usable entry and sends the same requests again, with
  the same outcome; this repeats for every later lookup, since a lookup leaves the entry
  empty.
\<close>

theorem packageInfo_never_caches:
  "c name = None \<longrightarrow>
     (\<forall>data l vs info d.
        registry name = Body data \<and> latest data = Some l \<and> l \<noteq> [] \<and> versions data = Some vs
        \<and> vs l = Some info \<and> pj_description info = Some d \<and> d \<noteq> [] \<longrightarrow>
          returned (packageInfo registry unpkg c name) = d)
     \<and> (\<forall>data.
          registry name = Body data
          \<and> (latest data = None \<or> latest data = Some [] \<or> versions data = None) \<longrightarrow>
            returned (packageInfo registry unpkg c name) =
              (case doc_description data of None \<Rightarrow> [] | Some d \<Rightarrow> d))
     \<and> (\<forall>data l vs.
          registry name = Body data \<and> latest data = Some l \<and> l \<noteq> [] \<and> versions data = Some vs
          \<and> (vs l = None \<or> (\<exists>info. vs l = Some info
                \<and> (pj_description info = None \<or> pj_description info = Some []))) \<longrightarrow>
            returned (packageInfo registry unpkg c name) =
              (case doc_description data of None \<Rightarrow> [] | Some d \<Rightarrow> d))
     \<and> (\<forall>data. registry name = Body data \<longrightarrow>
            requests (packageInfo registry unpkg c name) = [Registry name])
     \<and> (\<forall>info.
          registry name = Thrown \<and> unpkg name = Body info \<longrightarrow>
            returned (packageInfo registry unpkg c name) =
              (case pj_description info of None \<Rightarrow> [] | Some d \<Rightarrow> d)
            \<and> requests (packageInfo registry unpkg c name) = [Registry name, Unpkg name])
     \<and> (registry name = Thrown \<and> unpkg name = Thrown \<longrightarrow>
          returned (packageInfo registry unpkg c name) = []
          \<and> requests (packageInfo registry unpkg c name) = [Registry name, Unpkg name])
     \<and> cache (packageInfo registry unpkg c name) = c(name \<mapsto> [])
     \<and> packageInfo registry unpkg (cache (packageInfo registry unpkg c name)) name =
         packageInfo registry unpkg c name"
proof
  assume none: "c name = None"
  note first = packageInfo_uncached [of c name registry unpkg, OF none]
  let ?c' = "c(name \<mapsto> [])"
  have e: "orEmpty (c name) = []" using none by (simp add: orEmpty_def)
  have e': "orEmpty (?c' name) = []" by (simp add: orEmpty_def)
  have stored: "cache (packageInfo registry unpkg c name) = ?c'"
    unfolding first by (simp split: fetched.splits)
  have again: "packageInfo registry unpkg ?c' name = packageInfo registry unpkg c name"
    using e e' by (simp add: packageInfo_def Let_def split: fetched.splits)
  have 1: "\<forall>data l vs info d.
        registry name = Body data \<and> latest data = Some l \<and> l \<noteq> [] \<and> versions data = Some vs
        \<and> vs l = Some info \<and> pj_description info = Some d \<and> d \<noteq> [] \<longrightarrow>
          returned (packageInfo registry unpkg c name) = d"
    unfolding first by (auto simp: registryDesc_version)
  have 2: "\<forall>data.
          registry name = Body data
          \<and> (latest data = None \<or> latest data = Some [] \<or> versions data = None) \<longrightarrow>
            returned (packageInfo registry unpkg c name) =
              (case doc_description data of None \<Rightarrow> [] | Some d \<Rightarrow> d)"
    unfolding first by (auto simp: registryDesc_document)
  have mid: "\<forall>data l vs.
          registry name = Body data \<and> latest data = Some l \<and> l \<noteq> [] \<and> versions data = Some vs
          \<and> (vs l = None \<or> (\<exists>info. vs l = Some info
                \<and> (pj_description info = None \<or> pj_description info = Some []))) \<longrightarrow>
            returned (packageInfo registry unpkg c name) =
              (case doc_description data of None \<Rightarrow> [] | Some d \<Rightarrow> d)"
    unfolding first by (auto simp: registryDesc_undescribed)
  have 3: "\<forall>data. registry name = Body data \<longrightarrow>
            requests (packageInfo registry unpkg c name) = [Registry name]"
    unfolding first by simp
  have 4: "\<forall>info.
          registry name = Thrown \<and> unpkg name = Body info \<longrightarrow>
            returned (packageInfo registry unpkg c name) =
              (case pj_description info of None \<Rightarrow> [] | Some d \<Rightarrow> d)
            \<and> requests (packageInfo registry unpkg c name) = [Registry name, Unpkg name]"
    unfolding first by (simp add: unpkgDesc_def orEmpty_def)
  have 5: "registry name = Thrown \<and> unpkg name = Thrown \<longrightarrow>
          returned (packageInfo registry unpkg c name) = []
          \<and> requests (packageInfo registry unpkg c name) = [Registry name, Unpkg name]"
    unfolding first by simp
  from 1 2 mid 3 4 5 stored again
  show "(\<forall>data l vs info d.
        registry name = Body data \<and> latest data = Some l \<and> l \<noteq> [] \<and> versions data = Some vs
        \<and> vs l = Some info \<and> pj_description info = Some d \<and> d \<noteq> [] \<longrightarrow>
          returned (packageInfo registry unpkg c name) = d)
     \<and> (\<forall>data.
          registry name = Body data
          \<and> (latest data = None \<or> latest data = Some [] \<or> versions data = None) \<longrightarrow>
            returned (packageInfo registry unpkg c name) =
              (case doc_description data of None \<Rightarrow> [] | Some d \<Rightarrow> d))
     \<and> (\<forall>data l vs.
          registry name = Body data \<and> latest data = Some l \<and> l \<noteq> [] \<and> versions data = Some vs
          \<and> (vs l = None \<or> (\<exists>info. vs l = Some info
                \<and> (pj_description info = None \<or> pj_description info = Some []))) \<longrightarrow>
            returned (packageInfo registry unpkg c name) =
              (case doc_description data of None \<Rightarrow> [] | Some d \<Rightarrow> d))
     \<and> (\<forall>data. registry name = Body data \<longrightarrow>
            requests (packageInfo registry unpkg c name) = [Registry name])
     \<and> (\<forall>info.
          registry name = Thrown \<and> unpkg name = Body info \<longrightarrow>
            returned (packageInfo registry unpkg c name) =
              (case pj_description info of None \<Rightarrow> [] | Some d \<Rightarrow> d)
            \<and> requests (packageInfo registry unpkg c name) = [Registry name, Unpkg name])
     \<and> (registry name = Thrown \<and> unpkg name = Thrown \<longrightarrow>
          returned (packageInfo registry unpkg c name) = []
          \<and> requests (packageInfo registry unpkg c name) = [Registry name, Unpkg name])
     \<and> cache (packageInfo registry unpkg c name) = c(name \<mapsto> [])
     \<and> packageInfo registry unpkg (cache (packageInfo registry unpkg c name)) name =
         packageInfo registry unpkg c name"
    by (simp only: simp_thms)
qed

theorem packageInfo_never_caches_witness:
  "returned (packageInfo npmRegistry unpkgMirror Map.empty ''node-red-node-email'') = ''Email nodes''
   \<and> requests (packageInfo npmRegistry unpkgMirror Map.empty ''node-red-node-email'')
       = [Registry ''node-red-node-email'']
   \<and> cache (packageInfo npmRegistry unpkgMirror Map.empty ''node-red-node-email'')
        ''node-red-node-email'' = Some []
   \<and> requests (packageInfo npmRegistry unpkgMirror
        (cache (packageInfo npmRegistry unpkgMirror Map.empty ''node-red-node-email''))
        ''node-red-node-email'') = [Registry ''node-red-node-email'']
   \<and> returned (packageInfo npmRegistry unpkgMirror Map.empty ''node-red-contrib-tally'') = ''Tally nodes''
   \<and> requests (packageInfo npmRegistry unpkgMirror Map.empty ''node-red-contrib-tally'')
       = [Registry ''node-red-contrib-tally'', Unpkg ''node-red-contrib-tally'']
   \<and> cache (packageInfo npmRegistry unpkgMirror Map.empty ''node-red-contrib-tally'')
        ''node-red-contrib-tally'' = Some []
   \<and> returned (packageInfo npmRegistry unpkgMirror Map.empty ''unknown-package'') = []"
proof -
  let ?email = "''node-red-node-email''"
  let ?tally = "''node-red-contrib-tally''"
  let ?info = "\<lparr>pj_description = Some ''Email nodes''\<rparr>"
  let ?vs = "[''1.0.0'' \<mapsto> ?info]"
  let ?doc = "\<lparr>latest = Some ''1.0.0'', versions = Some ?vs, doc_description = Some ''old text''\<rparr>"
  let ?pj = "\<lparr>pj_description = Some ''Tally nodes''\<rparr>"
  have n: "(Map.empty :: string \<Rightarrow> string option) x = None" for x by simp
  note email = packageInfo_never_caches [of Map.empty ?email npmRegistry unpkgMirror, THEN mp, OF n]
  note tally = packageInfo_never_caches [of Map.empty ?tally npmRegistry unpkgMirror, THEN mp, OF n]
  note other = packageInfo_never_caches
    [of Map.empty "''unknown-package''" npmRegistry unpkgMirror, THEN mp, OF n]
  have reg: "npmRegistry ?email = Body ?doc" by (simp add: npmRegistry_def)
  have hyp: "npmRegistry ?email = Body ?doc \<and> latest ?doc = Some ''1.0.0'' \<and> ''1.0.0'' \<noteq> []
        \<and> versions ?doc = Some ?vs \<and> ?vs ''1.0.0'' = Some ?info
        \<and> pj_description ?info = Some ''Email nodes'' \<and> ''Email nodes'' \<noteq> []"
    using reg by simp
  have a: "returned (packageInfo npmRegistry unpkgMirror Map.empty ?email) = ''Email nodes''"
    by (rule email [THEN conjunct1, rule_format, OF hyp])
  have b: "requests (packageInfo npmRegistry unpkgMirror Map.empty ?email) = [Registry ?email]"
    by (rule email [THEN conjunct2, THEN conjunct2, THEN conjunct2, THEN conjunct1,
                    rule_format, OF reg])
  note tail = email [THEN conjunct2, THEN conjunct2, THEN conjunct2, THEN conjunct2,
                     THEN conjunct2, THEN conjunct2]
  have c: "cache (packageInfo npmRegistry unpkgMirror Map.empty ?email) ?email = Some []"
    by (subst tail [THEN conjunct1]) simp
  have d: "requests (packageInfo npmRegistry unpkgMirror
        (cache (packageInfo npmRegistry unpkgMirror Map.empty ?email)) ?email) = [Registry ?email]"
    by (subst tail [THEN conjunct2]) (rule b)
  have t: "npmRegistry ?tally = Thrown \<and> unpkgMirror ?tally = Body ?pj"
    by (simp add: npmRegistry_def unpkgMirror_def)
  note fallback = tally [THEN conjunct2, THEN conjunct2, THEN conjunct2, THEN conjunct2,
                         THEN conjunct1, rule_format, OF t]
  have e: "returned (packageInfo npmRegistry unpkgMirror Map.empty ?tally) = ''Tally nodes''"
    by (subst fallback [THEN conjunct1]) simp
  have f: "requests (packageInfo npmRegistry unpkgMirror Map.empty ?tally)
             = [Registry ?tally, Unpkg ?tally]"
    by (rule fallback [THEN conjunct2])
  have g: "cache (packageInfo npmRegistry unpkgMirror Map.empty ?tally) ?tally = Some []"
    by (subst tally [THEN conjunct2, THEN conjunct2, THEN conjunct2, THEN conjunct2,
                     THEN conjunct2, THEN conjunct2, THEN conjunct1]) simp
  have o: "npmRegistry ''unknown-package'' = Thrown \<and> unpkgMirror ''unknown-package'' = Thrown"
    by (simp add: npmRegistry_def unpkgMirror_def)
  have h: "returned (packageInfo npmRegistry unpkgMirror Map.empty ''unknown-package'') = []"
    by (rule other [THEN conjunct2, THEN conjunct2, THEN conjunct2, THEN conjunct2,
                    THEN conjunct2, THEN conjunct1, THEN mp, OF o, THEN conjunct1])
  from a b c d e f g h show ?thesis by (intro conjI)
qed

section \<open>Properties: Graph merge engine: the merge path of \<open>handlePromptSubmit\<close>\<close>











lemma node_id_withWires [simp]: "node_id (withWires p n) = node_id n"
  by (simp add: withWires_def split: option.splits)

lemma node_z_withWires [simp]: "node_z (withWires p n) = node_z n"
  by (simp add: withWires_def split: option.splits)

lemma node_id_updateFields [simp]: "node_id (updateFields p n) = node_id n"
  by (simp add: updateFields_def Let_def)

lemma node_z_updateFields [simp]: "node_z (updateFields p n) = node_z n"
  by (simp add: updateFields_def Let_def)





















































section \<open>Properties: Prompt composer: \<open>serializeFlowContext\<close> in resources/ai-connectors/connector-utils.js\<close>

lemma keepCount_positive: "1 \<le> keepCount n b l"
  by (simp add: keepCount_def)

lemma roundHalfEven_le:
  assumes "0 < den" "num \<le> N * den"
  shows "roundHalfEven num den \<le> N"
proof (cases "num = N * den")
  case True
  then show ?thesis using assms(1) by (simp add: roundHalfEven_def)
next
  case False
  with assms(2) have lt: "num < N * den" by simp
  have "num div den < N"
  proof (rule ccontr)
    assume "\<not> num div den < N"
    then have "N \<le> num div den" by simp
    then have 1: "N * den \<le> (num div den) * den" using assms(1) by (simp add: mult_right_mono)
    have 2: "0 \<le> num mod den" using assms(1) by simp
    have 3: "num = (num div den) * den + num mod den" by simp
    from 1 2 3 lt show False by linarith
  qed
  then show ?thesis by (simp add: roundHalfEven_def Let_def)
qed

lemma js_div_below_one:
  assumes "0 \<le> a" "a < b"
  shows "snd (js_div a b) \<le> 0 \<and> fst (js_div a b) \<le> 2 ^ nat (- snd (js_div a b))"
proof (cases "a = 0")
  case True
  then show ?thesis by (simp add: js_div_def)
next
  case False
  define k where "k = bits a - bits b"
  define lg where "lg = (if 0 \<le> k then (if b * 2 ^ nat k \<le> a then k else k - 1)
                        else (if b \<le> a * 2 ^ nat (- k) then k else k - 1))"
  define e where "e = lg - 52"
  have "lg \<le> - 1"
  proof (cases "0 \<le> k")
    case True
    have "b * 1 \<le> b * 2 ^ nat k" using assms by (intro mult_left_mono) simp_all
    with assms have "\<not> b * 2 ^ nat k \<le> a" by linarith
    moreover have "k \<le> 0"
    proof -
      have "bits a \<le> bits b"
      proof (rule ccontr)
        assume "\<not> bits a \<le> bits b"
        then have lt: "bits b < bits a" by simp
        have "0 \<le> bits b" by (rule bits_nonneg)
        define j where "j = nat (bits b)"
        have j: "int j = bits b" using \<open>0 \<le> bits b\<close> by (simp add: j_def)
        have "b < 2 ^ j" using bits_lower [of b] by (simp only: j_def)
        with assms have "a < 2 ^ j" by simp
        from bits_bound [OF this] j lt show False by simp
      qed
      then show ?thesis by (simp add: k_def)
    qed
    ultimately show ?thesis using True by (simp add: lg_def)
  next
    case False
    then show ?thesis by (simp add: lg_def)
  qed
  then have eneg: "e < 0" by (simp add: e_def)
  have val: "js_div a b = (roundHalfEven (a * 2 ^ nat (- e)) b, e)"
    unfolding js_div_def Let_def k_def [symmetric] lg_def [symmetric] e_def [symmetric]
    using \<open>a \<noteq> 0\<close> eneg by simp
  have "a * 2 ^ nat (- e) \<le> 2 ^ nat (- e) * b"
    using assms by (simp add: mult.commute mult_left_mono)
  then have "roundHalfEven (a * 2 ^ nat (- e)) b \<le> 2 ^ nat (- e)"
    using assms by (intro roundHalfEven_le) simp_all
  with eneg show ?thesis by (simp add: val)
qed

lemma keepCount_le:
  assumes "1 \<le> n" "n < 2 ^ 53" "b < l"
  shows "keepCount n b l \<le> n"
proof -
  obtain m e where d: "js_div (int b) (int l) = (m, e)" by (cases "js_div (int b) (int l)")
  from js_div_below_one [of "int b" "int l"] assms(3) d
  have e: "e \<le> 0" and m: "m \<le> 2 ^ nat (- e)" by simp_all
  have fl: "js_floor (x, - int i) = x div 2 ^ i" for x i
    by (cases "i = 0") (simp_all add: js_floor_def)
  define j where "j = nat (- e)"
  have ej: "e = - int j" using e by (simp add: j_def)
  define p where "p = int n * m"
  have p: "p \<le> int n * 2 ^ j" using m by (simp add: p_def j_def mult_left_mono)
  have "js_floor (js_mul (int n) (m, e)) \<le> int n"
  proof (cases "bits p \<le> 53")
    case True
    then have "js_mul (int n) (m, e) = (p, e)" by (simp add: js_mul_def p_def)
    then have "js_floor (js_mul (int n) (m, e)) = p div 2 ^ j"
      using fl [of p j] ej by simp
    also have "\<dots> \<le> int n * 2 ^ j div 2 ^ j" using p by (intro zdiv_mono1) simp_all
    also have "\<dots> = int n" by simp
    finally show ?thesis .
  next
    case False
    define k where "k = nat (bits p - 53)"
    have k: "int k = bits p - 53" and kpos: "0 < k" using False by (simp_all add: k_def)
    have "p < 2 ^ 53 * 2 ^ j"
    proof -
      have "int n < int (2 ^ 53)" using assms(2) by (simp only: of_nat_less_iff)
      then have "int n < 2 ^ 53" by simp
      then have "int n * 2 ^ j < 2 ^ 53 * 2 ^ j" by (intro mult_strict_right_mono) simp_all
      with p show ?thesis by linarith
    qed
    then have "p < 2 ^ (53 + j)" by (simp add: power_add)
    from bits_bound [OF this] k have kj: "k \<le> j" by simp
    define r where "r = roundHalfEven p (2 ^ k)"
    have val: "js_mul (int n) (m, e) = (r, e + int k)"
      using False by (simp add: js_mul_def Let_def r_def k_def flip: p_def)
    have "p \<le> (int n * 2 ^ (j - k)) * 2 ^ k"
    proof -
      have "(2::int) ^ (j - k) * 2 ^ k = 2 ^ (j - k + k)" by (simp only: power_add)
      also have "j - k + k = j" using kj by simp
      finally have "(int n * 2 ^ (j - k)) * 2 ^ k = int n * 2 ^ j" by (simp only: mult.assoc)
      with p show ?thesis by (simp only:)
    qed
    then have r: "r \<le> int n * 2 ^ (j - k)" unfolding r_def by (intro roundHalfEven_le) simp_all
    show ?thesis
    proof (cases "k = j")
      case True
      with r have "r \<le> int n" by simp
      moreover have "js_floor (r, e + int k) = r" using True ej by (simp add: js_floor_def)
      ultimately show ?thesis by (simp add: val)
    next
      case False
      with kj have lt: "k < j" by simp
      have "e + int k = - int (j - k)" using ej lt by simp
      then have "js_floor (r, e + int k) = r div 2 ^ (j - k)"
        using fl [of r "j - k"] by simp
      also have "\<dots> \<le> int n * 2 ^ (j - k) div 2 ^ (j - k)" using r by (intro zdiv_mono1) simp_all
      also have "\<dots> = int n" by simp
      finally show ?thesis by (simp add: val)
    qed
  qed
  then have "max 1 (js_floor (js_mul (int n) (js_div (int b) (int l)))) \<le> int n"
    using assms(1) by (simp add: d)
  then show ?thesis unfolding keepCount_def by linarith
qed

lemma keepCount_empty: "keepCount 0 b l = 1"
proof -
  have "js_mul 0 d = (0, snd d)" for d by (simp add: js_mul_def bits_zero)
  then show ?thesis by (simp add: keepCount_def js_floor_def)
qed

lemma notice_mentions_truncation: "sublist ''Flow truncated'' (truncationNotice kc n)"
proof -
  have "truncationNotice kc n =
        ([CHR 0x0A, CHR 0x0A] @ ''/* NOTE: '') @ ''Flow truncated'' @
        ('' for context. Showing '' @ decimal kc @ '' of '' @ decimal n
         @ '' nodes. Preserve structure of unseen nodes. */'')"
    by (simp add: truncationNotice_def)
  then show ?thesis unfolding sublist_def by blast
qed

text \<open>
  C8 (as amended). serializeFlowContext truncation. When the JSON text of the node list
  is within the budget, the output is that text. When it is longer, the output is the
  JSON text of the first \<open>k\<close> nodes, in order, followed by the notice
  "Flow truncated for context. Showing k of n nodes. ...", where \<open>k\<close> is
  \<open>max(1, floor(n * (budget / fullLength)))\<close> as JavaScript computes it: the quotient is
  rounded to a double, the product is rounded to a double, and then the floor is taken.
  For a list that is not empty (an array has fewer than \<open>2^32\<close> elements) \<open>k\<close> is at
  least 1 and at most \<open>n\<close>, so exactly \<open>k\<close> nodes are retained. For the empty list, whose
  JSON text is over a budget below its two characters, \<open>k\<close> is 1 all the same: no node
  is retained and the notice reads "Showing 1 of 0 nodes".
\<close>

theorem serializeFlowContext_truncation:
  "(length (stringify nodeList) \<le> maxChars \<longrightarrow>
      serializeFlowContext stringify nodeList maxChars = stringify nodeList)
   \<and> (maxChars < length (stringify nodeList) \<longrightarrow>
        serializeFlowContext stringify nodeList maxChars =
          stringify (take (keepCount (length nodeList) maxChars (length (stringify nodeList))) nodeList)
          @ [CHR 0x0A, CHR 0x0A] @ ''/* NOTE: Flow truncated for context. Showing ''
          @ decimal (keepCount (length nodeList) maxChars (length (stringify nodeList)))
          @ '' of '' @ decimal (length nodeList)
          @ '' nodes. Preserve structure of unseen nodes. */''
        \<and> int (keepCount (length nodeList) maxChars (length (stringify nodeList))) =
            max 1 (js_floor (js_mul (int (length nodeList))
                     (js_div (int maxChars) (int (length (stringify nodeList))))))
        \<and> sublist ''Flow truncated'' (serializeFlowContext stringify nodeList maxChars))
   \<and> (maxChars < length (stringify nodeList) \<and> nodeList \<noteq> [] \<and> length nodeList < 2 ^ 32 \<longrightarrow>
        1 \<le> keepCount (length nodeList) maxChars (length (stringify nodeList))
        \<and> keepCount (length nodeList) maxChars (length (stringify nodeList)) \<le> length nodeList
        \<and> length (take (keepCount (length nodeList) maxChars (length (stringify nodeList))) nodeList)
            = keepCount (length nodeList) maxChars (length (stringify nodeList)))
   \<and> (maxChars < length (stringify nodeList) \<and> nodeList = [] \<longrightarrow>
        serializeFlowContext stringify nodeList maxChars =
          stringify []
          @ [CHR 0x0A, CHR 0x0A]
          @ ''/* NOTE: Flow truncated for context. Showing 1 of 0 nodes. Preserve structure of unseen nodes. */'')"
proof (intro conjI impI)
  assume "length (stringify nodeList) \<le> maxChars"
  then show "serializeFlowContext stringify nodeList maxChars = stringify nodeList"
    by (simp add: serializeFlowContext_def)
next
  assume over: "maxChars < length (stringify nodeList)"
  let ?k = "keepCount (length nodeList) maxChars (length (stringify nodeList))"
  have out: "serializeFlowContext stringify nodeList maxChars =
             stringify (take ?k nodeList) @ truncationNotice ?k (length nodeList)"
    using over by (simp add: serializeFlowContext_def Let_def)
  show "serializeFlowContext stringify nodeList maxChars =
          stringify (take ?k nodeList)
          @ [CHR 0x0A, CHR 0x0A] @ ''/* NOTE: Flow truncated for context. Showing ''
          @ decimal ?k @ '' of '' @ decimal (length nodeList)
          @ '' nodes. Preserve structure of unseen nodes. */''"
    unfolding out by (simp add: truncationNotice_def)
  show "int ?k = max 1 (js_floor (js_mul (int (length nodeList))
                     (js_div (int maxChars) (int (length (stringify nodeList))))))"
    by (simp add: keepCount_def)
  have "sublist ''Flow truncated'' (truncationNotice ?k (length nodeList))"
    by (rule notice_mentions_truncation)
  then show "sublist ''Flow truncated'' (serializeFlowContext stringify nodeList maxChars)"
    unfolding out sublist_def by (metis append.assoc)
next
  assume h: "maxChars < length (stringify nodeList) \<and> nodeList \<noteq> [] \<and> length nodeList < 2 ^ 32"
  let ?k = "keepCount (length nodeList) maxChars (length (stringify nodeList))"
  from h have n1: "1 \<le> length nodeList" by (cases nodeList) simp_all
  have "(2::nat) ^ 32 < 2 ^ 53" by simp
  with h have n53: "length nodeList < 2 ^ 53" by linarith
  show "1 \<le> ?k" by (rule keepCount_positive)
  show le: "?k \<le> length nodeList" using n1 n53 h by (intro keepCount_le) simp_all
  show "length (take ?k nodeList) = ?k" using le by simp
next
  assume h: "maxChars < length (stringify nodeList) \<and> nodeList = []"
  have d0: "decimal 0 = ''0''" by (subst decimal.simps) simp
  have d1: "decimal (Suc 0) = ''1''" by (subst decimal.simps) simp
  from h have e: "nodeList = []" and over: "\<not> length (stringify []) \<le> maxChars" by auto
  show "serializeFlowContext stringify nodeList maxChars =
          stringify []
          @ [CHR 0x0A, CHR 0x0A]
          @ ''/* NOTE: Flow truncated for context. Showing 1 of 0 nodes. Preserve structure of unseen nodes. */''"
    unfolding e using over
    by (simp add: serializeFlowContext_def Let_def keepCount_empty truncationNotice_def d0 d1)
qed

theorem serializeFlowContext_truncation_witness:
  "length (stringifyNodes [[(''id'', ''n1'')]]) \<le> 40
   \<and> serializeFlowContext stringifyNodes [[(''id'', ''n1'')]] 40 = stringifyNodes [[(''id'', ''n1'')]]
   \<and> 360 < length (stringifyNodes nodes22)
   \<and> keepCount (length nodes22) 360 (length (stringifyNodes nodes22)) = 14
   \<and> serializeFlowContext stringifyNodes nodes22 360 =
       stringifyNodes (take 14 nodes22)
       @ [CHR 0x0A, CHR 0x0A]
       @ ''/* NOTE: Flow truncated for context. Showing 14 of 22 nodes. Preserve structure of unseen nodes. */''
   \<and> sublist ''Flow truncated'' (serializeFlowContext stringifyNodes nodes22 360)
   \<and> length (take 14 nodes22) = 14
   \<and> 1 < length (stringifyNodes [])
   \<and> serializeFlowContext stringifyNodes [] 1 =
       ''[]'' @ [CHR 0x0A, CHR 0x0A]
       @ ''/* NOTE: Flow truncated for context. Showing 1 of 0 nodes. Preserve structure of unseen nodes. */''"
proof -
  note small = serializeFlowContext_truncation [of stringifyNodes "[[(''id'', ''n1'')]]" 40]
  note big = serializeFlowContext_truncation [of stringifyNodes nodes22 360]
  have h1: "length (stringifyNodes [[(''id'', ''n1'')]]) \<le> 40" by code_simp
  have len: "length (stringifyNodes nodes22) = 528" by code_simp
  have h2: "360 < length (stringifyNodes nodes22)" by (simp add: len)
  have n: "length nodes22 = 22" by code_simp
  have k: "keepCount (length nodes22) 360 (length (stringifyNodes nodes22)) = 14"
    unfolding n len by code_simp
  have d14: "decimal 14 = ''14''" by code_simp
  have d22: "decimal 22 = ''22''" by code_simp
  from small h1 have 1: "serializeFlowContext stringifyNodes [[(''id'', ''n1'')]] 40
                         = stringifyNodes [[(''id'', ''n1'')]]" by blast
  from big h2 have "serializeFlowContext stringifyNodes nodes22 360 =
          stringifyNodes (take (keepCount (length nodes22) 360 (length (stringifyNodes nodes22))) nodes22)
          @ [CHR 0x0A, CHR 0x0A] @ ''/* NOTE: Flow truncated for context. Showing ''
          @ decimal (keepCount (length nodes22) 360 (length (stringifyNodes nodes22)))
          @ '' of '' @ decimal (length nodes22)
          @ '' nodes. Preserve structure of unseen nodes. */''"
    by blast
  then have "serializeFlowContext stringifyNodes nodes22 360 =
          stringifyNodes (take 14 nodes22)
          @ [CHR 0x0A, CHR 0x0A] @ ''/* NOTE: Flow truncated for context. Showing ''
          @ decimal 14 @ '' of '' @ decimal (length nodes22)
          @ '' nodes. Preserve structure of unseen nodes. */''"
    by (simp only: k)
  then have "serializeFlowContext stringifyNodes nodes22 360 =
          stringifyNodes (take 14 nodes22)
          @ [CHR 0x0A, CHR 0x0A] @ ''/* NOTE: Flow truncated for context. Showing ''
          @ ''14'' @ '' of '' @ ''22''
          @ '' nodes. Preserve structure of unseen nodes. */''"
    by (simp only: n d14 d22)
  then have 2: "serializeFlowContext stringifyNodes nodes22 360 =
       stringifyNodes (take 14 nodes22)
       @ [CHR 0x0A, CHR 0x0A]
       @ ''/* NOTE: Flow truncated for context. Showing 14 of 22 nodes. Preserve structure of unseen nodes. */''"
    by simp
  from big h2 have 3: "sublist ''Flow truncated'' (serializeFlowContext stringifyNodes nodes22 360)"
    by blast
  have ne: "nodes22 \<noteq> []" by (simp add: nodes22_def)
  have "(22::nat) < 2 ^ 32" by simp
  then have n32: "length nodes22 < 2 ^ 32" by (simp only: n)
  from h2 ne n32 have h3: "360 < length (stringifyNodes nodes22) \<and> nodes22 \<noteq> []
                           \<and> length nodes22 < 2 ^ 32" by (intro conjI)
  from big [THEN conjunct2, THEN conjunct2, THEN conjunct1, THEN mp, OF h3]
  have "length (take (keepCount (length nodes22) 360 (length (stringifyNodes nodes22))) nodes22)
          = keepCount (length nodes22) 360 (length (stringifyNodes nodes22))"
    by (rule conjunct2 [THEN conjunct2])
  then have 4: "length (take 14 nodes22) = 14" by (simp only: k)
  have e: "stringifyNodes [] = ''[]''" by (simp add: stringifyNodes_def)
  have h5: "1 < length (stringifyNodes [])" by (simp add: e)
  then have h6: "1 < length (stringifyNodes []) \<and> ([] :: (string \<times> string) list list) = []"
    by simp
  from serializeFlowContext_truncation [of stringifyNodes "[]" 1, THEN conjunct2, THEN conjunct2,
         THEN conjunct2, THEN mp, OF h6]
  have 5: "serializeFlowContext stringifyNodes [] 1 =
       ''[]'' @ [CHR 0x0A, CHR 0x0A]
       @ ''/* NOTE: Flow truncated for context. Showing 1 of 0 nodes. Preserve structure of unseen nodes. */''"
    by (simp only: e)
  from h1 1 h2 k 2 3 4 h5 5 show ?thesis by (intro conjI)
qed

text \<open>
  Twenty-two nodes whose JSON text has 528 characters, with a budget of 360: the exact
  value of \<open>22 * 360 / 528\<close> is 15, but \<open>360 / 528\<close> rounds to a double just below
  \<open>15 / 22\<close> and the product to \<open>14.999999999999998\<close>, so 14 nodes are kept. And the
  empty list with a budget of 1: the count is 1, but there is no node to retain.
\<close>

theorem serializeFlowContext_truncation_counterexample:
  "length nodes22 = 22
   \<and> length (stringifyNodes nodes22) = 528
   \<and> spec_keepCount 22 360 528 = 15
   \<and> serializeFlowContext stringifyNodes nodes22 360 =
       stringifyNodes (take 14 nodes22) @ truncationNotice 14 22
   \<and> stringifyNodes (take 14 nodes22) \<noteq> stringifyNodes (take (spec_keepCount 22 360 528) nodes22)
   \<and> length (stringifyNodes []) = 2
   \<and> spec_keepCount 0 1 2 = 1
   \<and> serializeFlowContext stringifyNodes [] 1 = stringifyNodes (take 1 []) @ truncationNotice 1 0
   \<and> length (take 1 ([] :: (string \<times> string) list list)) \<noteq> spec_keepCount 0 1 2"
proof -
  have n: "length nodes22 = 22" by code_simp
  have len: "length (stringifyNodes nodes22) = 528" by code_simp
  have s: "spec_keepCount 22 360 528 = 15" by code_simp
  have k: "keepCount 22 360 528 = 14" by code_simp
  have out: "serializeFlowContext stringifyNodes nodes22 360 =
       stringifyNodes (take 14 nodes22) @ truncationNotice 14 22"
    unfolding serializeFlowContext_def Let_def len n k by simp
  have l14: "length (stringifyNodes (take 14 nodes22)) = 344" by code_simp
  have l15: "length (stringifyNodes (take 15 nodes22)) = 367" by code_simp
  have ne: "stringifyNodes (take 14 nodes22) \<noteq> stringifyNodes (take (spec_keepCount 22 360 528) nodes22)"
  proof
    assume "stringifyNodes (take 14 nodes22) = stringifyNodes (take (spec_keepCount 22 360 528) nodes22)"
    then have "length (stringifyNodes (take 14 nodes22)) = length (stringifyNodes (take 15 nodes22))"
      by (simp only: s)
    with l14 l15 show False by simp
  qed
  have e: "length (stringifyNodes []) = 2" by (simp add: stringifyNodes_def)
  have s0: "spec_keepCount 0 1 2 = 1" by (simp add: spec_keepCount_def)
  have out0: "serializeFlowContext stringifyNodes [] 1
                = stringifyNodes (take 1 []) @ truncationNotice 1 0"
    by (simp add: serializeFlowContext_def Let_def e keepCount_empty)
  have ne0: "length (take 1 ([] :: (string \<times> string) list list)) \<noteq> spec_keepCount 0 1 2"
    unfolding s0 by simp
  from n len s out ne e s0 out0 ne0 show ?thesis by (intro conjI)
qed

section \<open>Properties: Sync state: \<open>resyncNodeWithAI\<close> and its callers in resources/node-tooltip.js\<close>

text \<open>
  C6 (as amended). Resynchronisation is not serialised per node identifier. A saved edit
  whose text differs from the text the tooltip showed and from the registry entry starts a resync
  call at once, and so does a change of the functional fields away from the stored ones,
  whatever the node's status and however many calls for the same node are under way: the
  call is added to those under way and the node is shown syncing. Every call under way
  runs to its end when it settles, and then shows the node idle.
\<close>

theorem resync_not_serialized:
  "(newText \<noteq> rawInfo \<and> registryInfo s nodeId \<noteq> Some newText \<longrightarrow>
      inFlight (handle (SaveEdit nodeId rawInfo newText) s) =
        inFlight s
        @ (if functionalPropertiesChanged nodeId s then [(nodeId, LogicToInfo)] else [])
        @ [(nodeId, InfoToLogic)]
      \<and> shownStatus (handle (SaveEdit nodeId rawInfo newText) s) nodeId = Syncing)
   \<and> (storedFunctional s nodeId \<noteq> None \<and> storedFunctional s nodeId \<noteq> Some newFunctional \<longrightarrow>
        inFlight (handle (EditLogic nodeId newFunctional) s) = inFlight s @ [(nodeId, LogicToInfo)]
        \<and> shownStatus (handle (EditLogic nodeId newFunctional) s) nodeId = Syncing)
   \<and> ((nodeId, dir) \<in> set (inFlight s) \<longrightarrow>
        finished (handle (Settled nodeId dir out) s) = finished s @ [(nodeId, dir)]
        \<and> shownStatus (handle (Settled nodeId dir out) s) nodeId = Idle)"
proof (intro conjI impI)
  assume a: "newText \<noteq> rawInfo \<and> registryInfo s nodeId \<noteq> Some newText"
  then have changed: "(case registryInfo s nodeId of None \<Rightarrow> True | Some r \<Rightarrow> r \<noteq> newText)"
    by (cases "registryInfo s nodeId") auto
  show "inFlight (handle (SaveEdit nodeId rawInfo newText) s) =
        inFlight s
        @ (if functionalPropertiesChanged nodeId s then [(nodeId, LogicToInfo)] else [])
        @ [(nodeId, InfoToLogic)]"
    using a changed
    by (simp add: saveAndExitEditMode_def resyncStart_def onNodesChange_def
                  functionalPropertiesChanged_def Let_def split: option.splits)
  show "shownStatus (handle (SaveEdit nodeId rawInfo newText) s) nodeId = Syncing"
    using a changed
    by (simp add: saveAndExitEditMode_def resyncStart_def onNodesChange_def Let_def)
next
  assume b: "storedFunctional s nodeId \<noteq> None \<and> storedFunctional s nodeId \<noteq> Some newFunctional"
  then have ch: "functionalPropertiesChanged nodeId
                   (s\<lparr>nodeFunctional := (nodeFunctional s)(nodeId := newFunctional)\<rparr>)"
    by (auto simp: functionalPropertiesChanged_def split: option.splits)
  show "inFlight (handle (EditLogic nodeId newFunctional) s) = inFlight s @ [(nodeId, LogicToInfo)]"
    using ch by (simp add: onNodesChange_def resyncStart_def)
  show "shownStatus (handle (EditLogic nodeId newFunctional) s) nodeId = Syncing"
    using ch by (simp add: onNodesChange_def resyncStart_def)
next
  assume c: "(nodeId, dir) \<in> set (inFlight s)"
  have fin: "finished (onNodesChange i t) = finished t" for i t
    by (simp add: onNodesChange_def resyncStart_def)
  show "finished (handle (Settled nodeId dir out) s) = finished s @ [(nodeId, dir)]"
    using c by (cases out; cases dir) (simp_all add: resyncFinish_def Let_def fin)
  show "shownStatus (handle (Settled nodeId dir out) s) nodeId = Idle"
    using c by (cases out; cases dir) (simp_all add: resyncFinish_def Let_def)
qed

theorem resync_not_serialized_witness:
  "inFlight (handle (SaveEdit ''n1'' ''log the payload'' ''log the topic'') quietEditor) = [(''n1'', InfoToLogic)]
   \<and> shownStatus (handle (SaveEdit ''n1'' ''log the payload'' ''log the topic'') quietEditor) ''n1'' = Syncing
   \<and> inFlight (handle (EditLogic ''n1'' ''{\"func\":1}'') quietEditor) = [(''n1'', LogicToInfo)]
   \<and> finished (handle (Settled ''n1'' InfoToLogic Failed)
                 (handle (SaveEdit ''n1'' ''log the payload'' ''log the topic'') quietEditor))
       = [(''n1'', InfoToLogic)]"
proof -
  let ?s1 = "handle (SaveEdit ''n1'' ''log the payload'' ''log the topic'') quietEditor"
  have h1: "''log the topic'' \<noteq> ''log the payload''
            \<and> registryInfo quietEditor ''n1'' \<noteq> Some ''log the topic''"
    by (simp add: quietEditor_def)
  have nf: "\<not> functionalPropertiesChanged ''n1'' quietEditor"
    by (simp add: functionalPropertiesChanged_def quietEditor_def)
  have h2: "storedFunctional quietEditor ''n1'' \<noteq> None
            \<and> storedFunctional quietEditor ''n1'' \<noteq> Some ''{\"func\":1}''"
    by (simp add: quietEditor_def)
  note a = resync_not_serialized
    [of "''log the topic''" "''log the payload''" quietEditor "''n1''" "''{\"func\":1}''" InfoToLogic Failed]
  from a h1 nf have 1: "inFlight ?s1 = [(''n1'', InfoToLogic)]"
    by (simp add: quietEditor_def)
  from a h1 have 2: "shownStatus ?s1 ''n1'' = Syncing" by blast
  from a h2 have 3: "inFlight (handle (EditLogic ''n1'' ''{\"func\":1}'') quietEditor)
                     = [(''n1'', LogicToInfo)]"
    by (simp add: quietEditor_def)
  have h3: "(''n1'', InfoToLogic) \<in> set (inFlight ?s1)" by (simp only: 1 list.set insertI1)
  have f0: "finished ?s1 = []"
    by (simp add: saveAndExitEditMode_def resyncStart_def onNodesChange_def Let_def
                  quietEditor_def functionalPropertiesChanged_def)
  note b = resync_not_serialized
    [of "''log the topic''" "''log the payload''" ?s1 "''n1''" "''{\"func\":1}''" InfoToLogic Failed]
  from b h3 have "finished (handle (Settled ''n1'' InfoToLogic Failed) ?s1)
                  = finished ?s1 @ [(''n1'', InfoToLogic)]" by blast
  then have 4: "finished (handle (Settled ''n1'' InfoToLogic Failed) ?s1) = [(''n1'', InfoToLogic)]"
    by (simp only: f0 append_Nil)
  from 1 2 3 4 show ?thesis by (intro conjI)
qed

text \<open>
  Two edits of the same node saved one after the other, the second while the call of the
  first is under way: the node is shown syncing, a second call is started all the same,
  and both calls run to their end.
\<close>

theorem resync_not_serialized_counterexample:
  "shownStatus (runEvents [SaveEdit ''n1'' ''log the payload'' ''log the topic''] quietEditor) ''n1'' = Syncing
   \<and> inFlight (runEvents twoEdits quietEditor) = [(''n1'', InfoToLogic), (''n1'', InfoToLogic)]
   \<and> finished (runEvents (twoEdits @ [Settled ''n1'' InfoToLogic (Updated ''log the topic'' ''{}''),
                                       Settled ''n1'' InfoToLogic (Updated ''log the topic twice'' ''{}'')])
                 quietEditor)
       = [(''n1'', InfoToLogic), (''n1'', InfoToLogic)]"
  by (simp add: runEvents_def twoEdits_def quietEditor_def saveAndExitEditMode_def
                resyncStart_def resyncFinish_def onNodesChange_def
                functionalPropertiesChanged_def Let_def)

section \<open>Properties: Reply parsing: the connectors in resources/ai-connectors/openai-connector-node.js\<close>

lemma space_newline: "isSpace 0x0A"
  by (simp add: isSpace_def isLineTerminator_def)

lemma backtick_not_space: "\<not> isSpace 0x60"
  by (simp add: isSpace_def isLineTerminator_def isWhiteSpace_def)

lemma closes_before_fence: "closes (u @ [0x0A, 0x60, 0x60, 0x60]) \<Longrightarrow> closes u"
proof (cases u)
  case Nil
  assume "closes (u @ [0x0A, 0x60, 0x60, 0x60])"
  with Nil show ?thesis by simp
next
  case u1: (Cons a u')
  assume c: "closes (u @ [0x0A, 0x60, 0x60, 0x60])"
  show ?thesis
  proof (cases u')
    case Nil
    with u1 c show ?thesis by simp
  next
    case u2: (Cons b u'')
    show ?thesis
    proof (cases u'')
      case Nil
      with u1 u2 c show ?thesis by simp
    next
      case u3: (Cons d r)
      with u1 u2 c show ?thesis by (cases r) (simp_all add: atLineEnd_def)
    qed
  qed
qed

lemma closes_hasClosingFence: "closes r \<Longrightarrow> hasClosingFence r"
  by (cases r) simp_all

lemma lazyCapture_fence:
  "\<not> hasClosingFence t \<Longrightarrow> lazyCapture (t @ [0x0A, 0x60, 0x60, 0x60]) = Some t"
proof (induction t)
  case Nil
  show ?case by (simp add: closer_def atLineEnd_def)
next
  case (Cons c r)
  from Cons.prems have nc: "\<not> closes (c # r)" and nr: "\<not> hasClosingFence r" by simp_all
  have 1: "\<not> closes ((c # r) @ [0x0A, 0x60, 0x60, 0x60])"
    using nc closes_before_fence by blast
  have 2: "\<not> closes (r @ [0x0A, 0x60, 0x60, 0x60])"
    using nr closes_before_fence closes_hasClosingFence by blast
  have "\<not> closer (c # r @ [0x0A, 0x60, 0x60, 0x60])"
    using 1 2 by (simp add: closer_def)
  then show ?case using Cons.IH [OF nr] by simp
qed

lemma lazyCapture_Some:
  "lazyCapture r = Some cap \<Longrightarrow> hasClosingFence r \<and> prefix cap r"
proof (induction r arbitrary: cap)
  case Nil
  then show ?case by (simp add: closer_def)
next
  case (Cons c r)
  show ?case
  proof (cases "closer (c # r)")
    case True
    then have "hasClosingFence (c # r)"
      by (auto simp: closer_def dest: closes_hasClosingFence)
    moreover from True Cons.prems have "cap = []" by simp
    ultimately show ?thesis by simp
  next
    case False
    with Cons.prems obtain cap' where l: "lazyCapture r = Some cap'" and e: "cap = c # cap'"
      by auto
    from Cons.IH [OF l] e show ?thesis by simp
  qed
qed

lemma hasClosingFence_suffix: "suffix u s \<Longrightarrow> hasClosingFence u \<Longrightarrow> hasClosingFence s"
proof (induction s)
  case Nil
  then show ?case by simp
next
  case (Cons c s)
  show ?case
  proof (cases "u = c # s")
    case True
    with Cons.prems show ?thesis by simp
  next
    case False
    with Cons.prems have "suffix u s" by (simp add: suffix_Cons)
    with Cons show ?thesis by simp
  qed
qed

lemma firstMatch_Some: "firstMatch f xs = Some y \<Longrightarrow> \<exists>x \<in> set xs. f x = Some y"
  by (induction xs) (auto split: option.splits)

lemma optionalTag_suffix: "x \<in> set (optionalTag r) \<Longrightarrow> suffix x r"
  by (auto simp: optionalTag_def suffix_drop split: if_splits)

lemma spaceRuns_suffix: "x \<in> set (spaceRuns r) \<Longrightarrow> suffix x r"
  by (auto simp: spaceRuns_def suffix_drop)

lemma optionalNewline_suffix: "x \<in> set (optionalNewline r) \<Longrightarrow> suffix x r"
  by (auto simp: optionalNewline_def suffix_Cons split: list.splits if_splits)

lemma matchHere_Some:
  assumes "matchHere s = Some cap"
  shows "\<exists>u. suffix u s \<and> hasClosingFence u \<and> prefix cap u"
proof -
  from assms obtain a b c r where s: "s = a # b # c # r"
    by (cases s rule: matchHere.cases) simp_all
  with assms have
    m: "firstMatch (\<lambda>r1. firstMatch (\<lambda>r2. firstMatch lazyCapture (optionalNewline r2))
                               (spaceRuns r1)) (optionalTag r) = Some cap"
    by (simp split: if_splits)
  from firstMatch_Some [OF m] obtain r1 where r1: "r1 \<in> set (optionalTag r)"
    and m1: "firstMatch (\<lambda>r2. firstMatch lazyCapture (optionalNewline r2)) (spaceRuns r1) = Some cap"
    by blast
  from firstMatch_Some [OF m1] obtain r2 where r2: "r2 \<in> set (spaceRuns r1)"
    and m2: "firstMatch lazyCapture (optionalNewline r2) = Some cap"
    by blast
  from firstMatch_Some [OF m2] obtain r3 where r3: "r3 \<in> set (optionalNewline r2)"
    and m3: "lazyCapture r3 = Some cap"
    by blast
  have "suffix r3 r2" using r3 by (rule optionalNewline_suffix)
  also have "suffix r2 r1" using r2 by (rule spaceRuns_suffix)
  also have "suffix r1 r" using r1 by (rule optionalTag_suffix)
  also have "suffix r s" unfolding s by (simp add: suffix_Cons)
  finally have "suffix r3 s" .
  with lazyCapture_Some [OF m3] show ?thesis by blast
qed

lemma codeBlockMatch_Some:
  "codeBlockMatch b s = Some cap \<Longrightarrow> \<exists>u. suffix u s \<and> hasClosingFence u \<and> prefix cap u"
proof (induction s arbitrary: b)
  case Nil
  then show ?case by (simp split: if_splits)
next
  case (Cons c r)
  show ?case
  proof (cases "b \<and> matchHere (c # r) \<noteq> None")
    case True
    with Cons.prems have "matchHere (c # r) = Some cap" by auto
    then show ?thesis by (rule matchHere_Some)
  next
    case False
    with Cons.prems have "codeBlockMatch (isLineTerminator c) r = Some cap"
      by (auto split: if_splits option.splits)
    from Cons.IH [OF this] obtain u where "suffix u r" "hasClosingFence u" "prefix cap u"
      by blast
    then show ?thesis by (meson suffix_ConsI)
  qed
qed

lemma codeBlockMatch_None: "\<not> hasClosingFence t \<Longrightarrow> codeBlockMatch b t = None"
proof (rule ccontr)
  assume n: "\<not> hasClosingFence t" and "codeBlockMatch b t \<noteq> None"
  then obtain cap where "codeBlockMatch b t = Some cap" by auto
  from codeBlockMatch_Some [OF this] n show False
    using hasClosingFence_suffix by blast
qed

lemma trim_trimmed:
  assumes "t \<noteq> []" "\<not> isSpace (hd t)" "\<not> isSpace (last t)"
  shows "trim t = t"
proof -
  from assms have 1: "dropWhile isSpace t = t" by (cases t) simp_all
  from assms have "rev t \<noteq> []" "\<not> isSpace (hd (rev t))" by (simp_all add: hd_rev)
  then have 2: "dropWhile isSpace (rev t) = rev t" by (cases "rev t") simp_all
  show ?thesis by (simp add: trim_def 1 2)
qed

lemma matchHere_fenced:
  assumes t: "t \<noteq> []" "\<not> isSpace (hd t)" and n: "\<not> hasClosingFence t"
    and tag: "tag = str ''json'' \<or> tag = []"
  shows "matchHere (fenced tag t) = Some t"
proof -
  let ?S = "[0x0A, 0x60, 0x60, 0x60] :: jsString"
  let ?r1 = "0x0A # t @ ?S"
  from t obtain c t' where ct: "t = c # t'" and c: "\<not> isSpace c" by (cases t) auto
  from c have c10: "c \<noteq> 0x0A" using space_newline by auto
  have cap: "lazyCapture (t @ ?S) = Some t" using n by (rule lazyCapture_fence)
  have nl: "optionalNewline (t @ ?S) = [t @ ?S]"
    using c10 by (simp add: optionalNewline_def ct)
  have tw: "takeWhile isSpace ?r1 = [0x0A]"
    using c space_newline by (simp add: ct)
  have runs: "spaceRuns ?r1 = [t @ ?S, ?r1]"
    unfolding spaceRuns_def tw by (simp add: upt_rec)
  have inner: "firstMatch (\<lambda>r2. firstMatch lazyCapture (optionalNewline r2)) (spaceRuns ?r1) = Some t"
    unfolding runs by (simp add: nl cap)
  have tagged: "\<exists>rest. optionalTag (tag @ ?r1) = ?r1 # rest"
  proof (cases "tag = []")
    case True
    then show ?thesis by (simp add: optionalTag_def str_def)
  next
    case False
    with tag have "tag = str ''json''" by simp
    then show ?thesis by (simp add: optionalTag_def str_def)
  qed
  then obtain rest where ot: "optionalTag (tag @ ?r1) = ?r1 # rest" by blast
  have "fenced tag t = 0x60 # 0x60 # 0x60 # (tag @ ?r1)" by (simp add: fenced_def)
  then show ?thesis by (simp add: ot inner)
qed

lemma cleanContent_fenced:
  assumes "t \<noteq> []" "\<not> isSpace (hd t)" "\<not> isSpace (last t)" "\<not> hasClosingFence t"
    and "tag = str ''json'' \<or> tag = []"
  shows "cleanContent (fenced tag t) = t"
proof -
  have f: "fenced tag t = 0x60 # 0x60 # 0x60 # (tag @ [0x0A] @ t @ [0x0A, 0x60, 0x60]) @ [0x60]"
    by (simp add: fenced_def)
  have ne: "fenced tag t \<noteq> []" by (simp add: fenced_def)
  have h: "hd (fenced tag t) = 0x60" by (simp add: fenced_def)
  have l: "last (fenced tag t) = 0x60" by (simp add: fenced_def)
  have tr: "trim (fenced tag t) = fenced tag t"
    using ne h l backtick_not_space by (intro trim_trimmed) simp_all
  have m: "matchHere (fenced tag t) = Some t" using assms by (intro matchHere_fenced)
  obtain x xs where cons: "fenced tag t = x # xs" using ne by (cases "fenced tag t") auto
  have "codeBlockMatch True (fenced tag t) = Some t"
    using m unfolding cons by simp
  then show ?thesis using assms by (simp add: cleanContent_def tr trim_trimmed)
qed

lemma cleanContent_plain:
  assumes "t \<noteq> []" "\<not> isSpace (hd t)" "\<not> isSpace (last t)" "\<not> hasClosingFence t"
  shows "cleanContent t = t"
  using assms by (simp add: cleanContent_def trim_trimmed codeBlockMatch_None)

text \<open>
  C9 (as amended). Response parsing. Let \<open>t\<close> be a reply text that neither begins nor
  ends with white space (as the text of a JSON object, from its opening to its closing
  brace) and that nowhere holds three backticks directly before a line terminator or at
  its end (as every JSON text unless one of its strings holds three backticks directly
  before a line separator U+2028 or U+2029). Then \<open>t\<close> inside a fenced block, with the
  language tag \<open>json\<close> or without a tag, is cleaned to \<open>t\<close>, as \<open>t\<close> alone is, so that
  both replies yield the same parsed value when \<open>JSON.parse\<close> accepts \<open>t\<close>. For every
  reply that is not empty and whose cleaned text \<open>JSON.parse\<close> rejects, \<open>generateFlow\<close>
  and \<open>resyncNode\<close> return the failure whose error is the fixed message followed by the
  first 200 code units of the original content: a longer content is never in the message
  whole.
\<close>

theorem reply_parsing:
  "(t \<noteq> [] \<and> \<not> isSpace (hd t) \<and> \<not> isSpace (last t) \<and> \<not> hasClosingFence t
      \<and> (tag = str ''json'' \<or> tag = []) \<longrightarrow>
        cleanContent (fenced tag t) = t \<and> cleanContent t = t
      \<and> (\<forall>parsed. parse t = Some parsed \<longrightarrow>
             generateFlow_parse parse (fenced tag t) = Parsed parsed
           \<and> generateFlow_parse parse t = Parsed parsed
           \<and> generateDescription_parse parse (fenced tag t) = Parsed parsed
           \<and> generateDescription_parse parse t = Parsed parsed))
   \<and> (content \<noteq> [] \<and> parse (cleanContent content) = None \<longrightarrow>
        generateFlow_parse parse content = Error (invalidJson (take 200 content))
      \<and> prefix (take 200 content) content
      \<and> length (take 200 content) \<le> 200
      \<and> (200 < length content \<longrightarrow> take 200 content \<noteq> content))"
proof (intro conjI impI allI)
  assume a: "t \<noteq> [] \<and> \<not> isSpace (hd t) \<and> \<not> isSpace (last t) \<and> \<not> hasClosingFence t
             \<and> (tag = str ''json'' \<or> tag = [])"
  then have f: "cleanContent (fenced tag t) = t" by (intro cleanContent_fenced) simp_all
  from a have p: "cleanContent t = t" by (intro cleanContent_plain) simp_all
  have ne: "fenced tag t \<noteq> []" by (simp add: fenced_def)
  show "cleanContent (fenced tag t) = t" by (rule f)
  show "cleanContent t = t" by (rule p)
  fix parsed
  assume ok: "parse t = Some parsed"
  show "generateFlow_parse parse (fenced tag t) = Parsed parsed"
    using ne ok by (simp add: generateFlow_parse_def f)
  show "generateFlow_parse parse t = Parsed parsed"
    using a ok by (simp add: generateFlow_parse_def p)
  show "generateDescription_parse parse (fenced tag t) = Parsed parsed"
    using ne ok by (simp add: generateDescription_parse_def f)
  show "generateDescription_parse parse t = Parsed parsed"
    using a ok by (simp add: generateDescription_parse_def p)
next
  assume b: "content \<noteq> [] \<and> parse (cleanContent content) = None"
  show "generateFlow_parse parse content = Error (invalidJson (take 200 content))"
    using b by (simp add: generateFlow_parse_def)
  show "prefix (take 200 content) content" by (rule take_is_prefix)
  show "length (take 200 content) \<le> 200" by simp
  assume long: "200 < length content"
  show "take 200 content \<noteq> content"
  proof
    assume "take 200 content = content"
    then have "length (take 200 content) = length content" by simp
    with long show False by simp
  qed
qed

theorem reply_parsing_witness:
  "cleanContent (fenced (str ''json'') flowObject) = flowObject
   \<and> generateFlow_parse bracketed (fenced (str ''json'') flowObject) = Parsed flowObject
   \<and> generateFlow_parse bracketed flowObject = Parsed flowObject
   \<and> generateDescription_parse bracketed (fenced [] flowObject) = Parsed flowObject
   \<and> generateDescription_parse bracketed flowObject = Parsed flowObject
   \<and> generateFlow_parse bracketed longApology = Error (invalidJson (take 200 longApology))
   \<and> length longApology = 205
   \<and> take 200 longApology \<noteq> longApology"
proof -
  have v: "flowObject \<noteq> [] \<and> \<not> isSpace (hd flowObject) \<and> \<not> isSpace (last flowObject)
           \<and> \<not> hasClosingFence flowObject"
    by (simp add: flowObject_def str_def isSpace_def isWhiteSpace_def isLineTerminator_def)
  have ok: "bracketed flowObject = Some flowObject"
    by (simp add: flowObject_def str_def bracketed_def)
  have len: "length longApology = 205" by code_simp
  have no: "longApology \<noteq> [] \<and> bracketed (cleanContent longApology) = None" by code_simp
  have long: "200 < length longApology" by (simp add: len)
  note j = reply_parsing [of flowObject "str ''json''" bracketed longApology]
  note n = reply_parsing [of flowObject "[]" bracketed longApology]
  from j v have 1: "cleanContent (fenced (str ''json'') flowObject) = flowObject" by blast
  from j v ok have 2: "generateFlow_parse bracketed (fenced (str ''json'') flowObject)
                       = Parsed flowObject" by blast
  from j v ok have 3: "generateFlow_parse bracketed flowObject = Parsed flowObject" by blast
  from n v ok have 4: "generateDescription_parse bracketed (fenced [] flowObject)
                       = Parsed flowObject" by blast
  from n v ok have 5: "generateDescription_parse bracketed flowObject = Parsed flowObject" by blast
  from j no have 6: "generateFlow_parse bracketed longApology
                     = Error (invalidJson (take 200 longApology))" by blast
  from j no long have 7: "take 200 longApology \<noteq> longApology" by blast
  from 1 2 3 4 5 6 len 7 show ?thesis by (intro conjI)
qed

text \<open>
  For the object \<open>separatorObject\<close> the fenced and the plain reply are parsed
  differently: the plain one is cleaned to \<open>[1]\<close>, which is parsed, the fenced one to a
  text cut inside the string, which is rejected.
\<close>

theorem reply_parsing_counterexample:
  "bracketed separatorObject = Some separatorObject
   \<and> cleanContent separatorObject = str ''[1]''
   \<and> generateFlow_parse bracketed separatorObject = Parsed (str ''[1]'')
   \<and> cleanContent (fenced (str ''json'') separatorObject)
       = str ''{\"a\":\"'' @ [0x2028, 0x60, 0x60, 0x60] @ str ''[1]''
   \<and> generateFlow_parse bracketed (fenced (str ''json'') separatorObject)
       = Error (invalidJson (take 200 (fenced (str ''json'') separatorObject)))"
  by code_simp

end
